theory Spec2Isabelle
  imports Complex_Main
begin

section \<open>The mind-map node model\<close>

text \<open>
  The page keeps one tree of \<^verbatim>\<open>MindMapNode\<close> objects:
  \<^verbatim>\<open>interface MindMapNode { id: string; content: string; children: MindMapNode[];
                          x?: number; y?: number; color?: string; }\<close>
  Optional fields are \<open>option\<close> values (\<open>None\<close> is \<^verbatim>\<open>undefined\<close>). The type
  \<open>'n\<close> stands for the platform's numbers; every arithmetic operation the page
  applies to them is a field of \<open>js_arith\<close> below, so that nothing proved here depends
  on how IEEE-754 doubles round.
\<close>

datatype 'n MindMapNode =
  Node (node_id: string) (node_content: string) (node_children: "'n MindMapNode list")
       (node_x: "'n option") (node_y: "'n option") (node_color: "string option")

text \<open>All nodes reachable from a node, in depth-first pre-order, and their identifiers.\<close>

fun nodes :: "'n MindMapNode \<Rightarrow> 'n MindMapNode list" where
  "nodes (Node i c ch px py col) = Node i c ch px py col # concat (map nodes ch)"

definition ids :: "'n MindMapNode \<Rightarrow> string list" where
  "ids t = map node_id (nodes t)"

definition count_nodes :: "'n MindMapNode \<Rightarrow> nat" where
  "count_nodes t = length (nodes t)"

subsection \<open>deleteNode\<close>

text \<open>
  \<^verbatim>\<open>const removeNodeFromTree = (node) => ({ ...node,
      children: node.children.filter(child => child.id !== nodeId).map(removeNodeFromTree) })\<close>
\<close>

fun removeNodeFromTree :: "string \<Rightarrow> 'n MindMapNode \<Rightarrow> 'n MindMapNode" where
  "removeNodeFromTree nodeId (Node i c ch px py col) =
     Node i c (map (removeNodeFromTree nodeId) (filter (\<lambda>child. node_id child \<noteq> nodeId) ch)) px py col"

text \<open>The node that a depth-first search for an identifier locates: the first one in
  pre-order that carries it.\<close>

definition find_node :: "string \<Rightarrow> 'n MindMapNode \<Rightarrow> 'n MindMapNode option" where
  "find_node i t = find (\<lambda>n. node_id n = i) (nodes t)"

subsection \<open>addChildNode\<close>

text \<open>
  \<^verbatim>\<open>const addChildToNode = (node) => {
    if (node.id === parentId) return { ...node, children: [...node.children, newNode] };
    return { ...node, children: node.children.map(addChildToNode) };
  };\<close>
\<close>

fun addChildToNode :: "string \<Rightarrow> 'n MindMapNode \<Rightarrow> 'n MindMapNode \<Rightarrow> 'n MindMapNode" where
  "addChildToNode parentId newNode (Node i c ch px py col) =
     (if i = parentId then Node i c (ch @ [newNode]) px py col
      else Node i c (map (addChildToNode parentId newNode) ch) px py col)"

definition nodeColors :: "string list" where
  "nodeColors = [''#9b87f5'', ''#FFDEE2'', ''#E5DEFF'', ''#D3E4FD'', ''#F2FCE2'', ''#FEF7CD'']"

text \<open>The decimal rendering of a non-negative integer, as the template literal
  \<^verbatim>\<open>`node-${Date.now()}`\<close> produces it.\<close>

definition digit_char :: "nat \<Rightarrow> char" where
  "digit_char d = char_of (of_char CHR ''0'' + d)"

fun string_of_nat :: "nat \<Rightarrow> string" where
  "string_of_nat n =
     (if n < 10 then [digit_char n] else string_of_nat (n div 10) @ [digit_char (n mod 10)])"

text \<open>
  The node \<^verbatim>\<open>addChildNode\<close> builds. \<open>now\<close> is the value of \<^verbatim>\<open>Date.now()\<close> and
  \<open>pick\<close> the value of \<^verbatim>\<open>Math.floor(Math.random() * nodeColors.length)\<close>; an index
  outside the palette reads \<^verbatim>\<open>undefined\<close>.
\<close>

definition newNodeId :: "nat \<Rightarrow> string" where
  "newNodeId now = ''node-'' @ string_of_nat now"

definition newNode :: "nat \<Rightarrow> nat \<Rightarrow> 'n MindMapNode" where
  "newNode now pick =
     Node (newNodeId now) ''New Idea'' [] None None
          (if pick < length nodeColors then Some (nodeColors ! pick) else None)"

subsection \<open>saveNodeEdit\<close>

text \<open>
  \<^verbatim>\<open>const updateNodeContent = (node) => {
    if (node.id === editingNodeId) return { ...node, content: editNodeContent };
    return { ...node, children: node.children.map(updateNodeContent) };
  };\<close>
\<close>

fun updateNodeContent :: "string \<Rightarrow> string \<Rightarrow> 'n MindMapNode \<Rightarrow> 'n MindMapNode" where
  "updateNodeContent editingId newContent (Node i c ch px py col) =
     (if i = editingId then Node i newContent ch px py col
      else Node i c (map (updateNodeContent editingId newContent) ch) px py col)"

subsection \<open>Numbers and the radial layout\<close>

text \<open>
  The operations of the platform's number type that the layout uses. \<open>js_nat\<close> reads an
  integer literal, an array length or an array index as a number, \<open>js_lit08\<close> is the
  literal \<^verbatim>\<open>0.8\<close>, and \<open>js_falsy\<close> holds of the numbers that \<^verbatim>\<open>||\<close> treats as false
  (\<^verbatim>\<open>0\<close>, \<^verbatim>\<open>-0\<close> and \<^verbatim>\<open>NaN\<close>).
\<close>

record 'n js_arith =
  js_add :: "'n \<Rightarrow> 'n \<Rightarrow> 'n"
  js_mul :: "'n \<Rightarrow> 'n \<Rightarrow> 'n"
  js_div :: "'n \<Rightarrow> 'n \<Rightarrow> 'n"
  js_cos :: "'n \<Rightarrow> 'n"
  js_sin :: "'n \<Rightarrow> 'n"
  js_pi :: 'n
  js_nat :: "nat \<Rightarrow> 'n"
  js_lit08 :: 'n
  js_falsy :: "'n \<Rightarrow> bool"

text \<open>\<^verbatim>\<open>v || 0\<close> for an optional number \<open>v\<close>.\<close>

definition or_zero :: "'n js_arith \<Rightarrow> 'n option \<Rightarrow> 'n" where
  "or_zero A v = (case v of None \<Rightarrow> js_nat A 0
                  | Some r \<Rightarrow> if js_falsy A r then js_nat A 0 else r)"

fun set_xy :: "'n \<Rightarrow> 'n \<Rightarrow> 'n MindMapNode \<Rightarrow> 'n MindMapNode" where
  "set_xy vx vy (Node i c ch px py col) = Node i c ch (Some vx) (Some vy) col"

fun set_children :: "'n MindMapNode list \<Rightarrow> 'n MindMapNode \<Rightarrow> 'n MindMapNode" where
  "set_children ch' (Node i c ch px py col) = Node i c ch' px py col"

lemma count_nodes_set_xy: "count_nodes (set_xy vx vy t) = count_nodes t"
  by (cases t) (simp add: count_nodes_def)

lemma count_nodes_child:
  "child \<in> set (node_children t) \<Longrightarrow> count_nodes child < count_nodes t"
proof (cases t)
  case (Node i c ch px py col)
  assume "child \<in> set (node_children t)"
  with Node have "child \<in> set ch" by simp
  then have "length (nodes child) \<le> length (concat (map nodes ch))"
    by (induction ch) auto
  with Node show ?thesis by (simp add: count_nodes_def)
qed

text \<open>
  \<^verbatim>\<open>const layoutChildren = (node, angle, distance) => {
    if (!node.children || node.children.length === 0) return;
    const nodeX = node.x || 0;
    const nodeY = node.y || 0;
    const angleStep = (Math.PI * 2) / node.children.length;
    node.children.forEach((child, index) => {
      const childAngle = angle + index * angleStep;
      child.x = nodeX + Math.cos(childAngle) * distance;
      child.y = nodeY + Math.sin(childAngle) * distance;
      layoutChildren(child, childAngle, distance * 0.8);
    });
  };\<close>
  The source writes the positions into the child objects; the model returns the node
  with its children replaced by the laid-out ones. The two agree on every object graph
  that is a tree (no node object occurs under two parents), which is what a value of
  type \<open>MindMapNode\<close> is. \<^verbatim>\<open>addChildNode\<close> puts its one new object under every
  node that carries \<open>parentId\<close>, so an object is shared only when two nodes carry the
  same identifier; on such a graph the last write into the shared object wins and the
  model does not describe the positions. The statements about positions below are
  therefore made for trees with distinct identifiers, on which the model and the source
  agree.
\<close>

function layoutChildren ::
  "'n js_arith \<Rightarrow> 'n MindMapNode \<Rightarrow> 'n \<Rightarrow> 'n \<Rightarrow> 'n MindMapNode" where
  "layoutChildren A node angle distance =
     (if node_children node = [] then node
      else
        let nodeX = or_zero A (node_x node);
            nodeY = or_zero A (node_y node);
            angleStep = js_div A (js_mul A (js_pi A) (js_nat A 2))
                                 (js_nat A (length (node_children node)))
        in set_children
             (map (\<lambda>(index, child).
                     let childAngle = js_add A angle (js_mul A (js_nat A index) angleStep);
                         child' = set_xy (js_add A nodeX (js_mul A (js_cos A childAngle) distance))
                                         (js_add A nodeY (js_mul A (js_sin A childAngle) distance))
                                         child
                     in layoutChildren A child' childAngle (js_mul A distance (js_lit08 A)))
                  (enumerate 0 (node_children node)))
             node)"
  by pat_completeness auto
termination
  by (relation "measure (\<lambda>(A, node, angle, distance). count_nodes node)")
     (auto simp: count_nodes_set_xy in_set_enumerate_eq intro!: count_nodes_child nth_mem)

declare layoutChildren.simps [simp del]

text \<open>
  The placement law of the specification, stated on a laid-out tree: the \<open>k\<close>-th of a
  node's \<open>n\<close> children has the angle \<open>angle + k * ((pi * 2) / n)\<close>, its position is
  the parent's position (read through \<^verbatim>\<open>|| 0\<close>) plus
  \<open>(cos childAngle * distance, sin childAngle * distance)\<close>, and its own children
  are placed from that angle with the distance times \<^verbatim>\<open>0.8\<close>.
\<close>

function radial :: "'n js_arith \<Rightarrow> 'n MindMapNode \<Rightarrow> 'n \<Rightarrow> 'n \<Rightarrow> bool" where
  "radial A (Node i c ch px py col) angle distance \<longleftrightarrow>
     (\<forall>(k, child) \<in> set (enumerate 0 ch).
        let angleStep = js_div A (js_mul A (js_pi A) (js_nat A 2)) (js_nat A (length ch));
            childAngle = js_add A angle (js_mul A (js_nat A k) angleStep)
        in node_x child = Some (js_add A (or_zero A px) (js_mul A (js_cos A childAngle) distance)) \<and>
           node_y child = Some (js_add A (or_zero A py) (js_mul A (js_sin A childAngle) distance)) \<and>
           radial A child childAngle (js_mul A distance (js_lit08 A)))"
  by pat_completeness auto

termination
  by (relation "measure (\<lambda>(A, node, angle, distance). count_nodes node)")
     (auto simp: in_set_enumerate_eq intro!: count_nodes_child nth_mem)

section \<open>The page and its handlers\<close>

text \<open>
  The component state that the tree handlers read and write. Each \<^verbatim>\<open>toast({title})\<close>
  call appends its title to \<open>toasts\<close>. A handler is a function from the state before
  the event to the state after it.
\<close>

record 'n page =
  rootNode :: "'n MindMapNode"
  editingNodeId :: "string option"
  editNodeContent :: string
  zoom :: 'n
  offset :: "'n \<times> 'n"
  toasts :: "string list"

record canvas =
  clientWidth :: nat
  clientHeight :: nat

text \<open>The literal used by the state initialiser and by \<^verbatim>\<open>resetMindMap\<close>.\<close>

definition default_root :: "'n js_arith \<Rightarrow> 'n MindMapNode" where
  "default_root A =
     Node ''root'' ''Central Idea'' [] (Some (js_nat A 0)) (Some (js_nat A 0)) (Some ''#9b87f5'')"

text \<open>
  \<^verbatim>\<open>const layoutMindMap = () => {
    if (!canvasRef.current) return;
    const canvas = canvasRef.current;
    const centerX = canvas.clientWidth / 2;
    const centerY = canvas.clientHeight / 2;
    const updatedRoot = { ...rootNode, x: centerX, y: centerY };
    layoutChildren(updatedRoot, 0, 200);
    setRootNode(updatedRoot);
  };\<close>
\<close>

definition layoutMindMap :: "'n js_arith \<Rightarrow> canvas option \<Rightarrow> 'n page \<Rightarrow> 'n page" where
  "layoutMindMap A canvasRef s =
     (case canvasRef of
        None \<Rightarrow> s
      | Some cv \<Rightarrow>
          let centerX = js_div A (js_nat A (clientWidth cv)) (js_nat A 2);
              centerY = js_div A (js_nat A (clientHeight cv)) (js_nat A 2);
              updatedRoot = set_xy centerX centerY (rootNode s)
          in s\<lparr>rootNode := layoutChildren A updatedRoot (js_nat A 0) (js_nat A 200)\<rparr>)"

definition addChildNode :: "nat \<Rightarrow> nat \<Rightarrow> string \<Rightarrow> 'n page \<Rightarrow> 'n page" where
  "addChildNode now pick parentId s =
     s\<lparr>rootNode := addChildToNode parentId (newNode now pick) (rootNode s),
       editingNodeId := Some (newNodeId now),
       editNodeContent := ''New Idea'',
       toasts := toasts s @ [''Node Added'']\<rparr>"

definition deleteNode :: "string \<Rightarrow> 'n page \<Rightarrow> 'n page" where
  "deleteNode nodeId s =
     (if nodeId = ''root'' then s\<lparr>toasts := toasts s @ [''Cannot Delete Root'']\<rparr>
      else s\<lparr>rootNode := removeNodeFromTree nodeId (rootNode s),
             toasts := toasts s @ [''Node Deleted'']\<rparr>)"

definition editNode :: "'n MindMapNode \<Rightarrow> 'n page \<Rightarrow> 'n page" where
  "editNode node s = s\<lparr>editingNodeId := Some (node_id node), editNodeContent := node_content node\<rparr>"

text \<open>\<^verbatim>\<open>if (!editingNodeId) return;\<close> leaves on \<^verbatim>\<open>null\<close> and on the empty string.\<close>

definition saveNodeEdit :: "'n page \<Rightarrow> 'n page" where
  "saveNodeEdit s =
     (case editingNodeId s of
        None \<Rightarrow> s
      | Some eid \<Rightarrow>
          if eid = [] then s
          else s\<lparr>rootNode := updateNodeContent eid (editNodeContent s) (rootNode s),
                 editingNodeId := None,
                 editNodeContent := [],
                 toasts := toasts s @ [''Node Updated'']\<rparr>)"

definition resetMindMap :: "'n js_arith \<Rightarrow> 'n page \<Rightarrow> 'n page" where
  "resetMindMap A s =
     s\<lparr>rootNode := default_root A,
       zoom := js_nat A 1,
       offset := (js_nat A 0, js_nat A 0),
       toasts := toasts s @ [''Mind Map Reset'']\<rparr>"

text \<open>The events that reach the tree, and the handler each one runs.\<close>

datatype 'n event =
    AddChild nat nat string
  | Delete string
  | Edit "'n MindMapNode"
  | Typed string
  | SaveEdit
  | Layout "canvas option"
  | Reset

fun handle :: "'n js_arith \<Rightarrow> 'n event \<Rightarrow> 'n page \<Rightarrow> 'n page" where
  "handle A (AddChild now pick parentId) s = addChildNode now pick parentId s"
| "handle A (Delete nodeId) s = deleteNode nodeId s"
| "handle A (Edit node) s = editNode node s"
| "handle A (Typed v) s = s\<lparr>editNodeContent := v\<rparr>"
| "handle A SaveEdit s = saveNodeEdit s"
| "handle A (Layout canvasRef) s = layoutMindMap A canvasRef s"
| "handle A Reset s = resetMindMap A s"

text \<open>The tree with every position forgotten, and with every content forgotten.\<close>

fun erase_pos :: "'n MindMapNode \<Rightarrow> 'n MindMapNode" where
  "erase_pos (Node i c ch px py col) = Node i c (map erase_pos ch) None None col"

fun erase_content :: "'n MindMapNode \<Rightarrow> 'n MindMapNode" where
  "erase_content (Node i c ch px py col) = Node i [] (map erase_content ch) px py col"

text \<open>Real arithmetic, as one instance of the number operations.\<close>

definition real_arith :: "real js_arith" where
  "real_arith = \<lparr>js_add = (+), js_mul = (*), js_div = (/), js_cos = cos, js_sin = sin,
                  js_pi = pi, js_nat = real, js_lit08 = 8 / 10, js_falsy = (\<lambda>r. r = 0)\<rparr>"

text \<open>\<^verbatim>\<open>{ ...node, content: v }\<close>\<close>

fun set_content :: "string \<Rightarrow> 'n MindMapNode \<Rightarrow> 'n MindMapNode" where
  "set_content v (Node i c ch px py col) = Node i v ch px py col"

text \<open>
  The root invariant of the data model: the root carries the fixed identifier
  \<^verbatim>\<open>"root"\<close> and no node below it does.
\<close>

definition root_ok :: "'n MindMapNode \<Rightarrow> bool" where
  "root_ok t \<longleftrightarrow>
     node_id t = ''root'' \<and> ''root'' \<notin> set (concat (map ids (node_children t)))"

section \<open>Initialising a model from storage\<close>

text \<open>
  \<^verbatim>\<open>JSON.parse\<close> is a built-in of the platform: it throws \<^verbatim>\<open>SyntaxError\<close> on a text
  that is not JSON and returns the value the text denotes otherwise. \<open>json_valid\<close>
  recognises the JSON texts (the grammar of ECMA-404) with a pushdown automaton that
  reads the text once: the control state says what may come next, the stack holds the
  arrays and objects that are still open. The value built from a valid text is the
  parameter \<open>decode\<close> of \<open>JSON_parse\<close>; the page uses it at the type of its state
  without checking it.
\<close>

datatype exn = SyntaxError

datatype jcontainer = InArray | InObject

datatype jstate =
    ExpectValue | ArrayStart | ObjectStart | ExpectKey | ExpectColon | AfterValue
  | InString bool | Escape bool | Unicode bool nat | Literal string
  | NumMinus | NumZero | NumInt | NumDot | NumFrac | NumE | NumESign | NumExp
  | Reject

definition is_ws :: "char \<Rightarrow> bool" where
  "is_ws c \<longleftrightarrow> c = CHR '' '' \<or> c = CHR 0x09 \<or> c = CHR 0x0A \<or> c = CHR 0x0D"

definition is_digit :: "char \<Rightarrow> bool" where
  "is_digit c \<longleftrightarrow> c \<in> set ''0123456789''"

definition is_hex :: "char \<Rightarrow> bool" where
  "is_hex c \<longleftrightarrow> c \<in> set ''0123456789abcdefABCDEF''"

definition begin_value :: "jcontainer list \<Rightarrow> char \<Rightarrow> jstate \<times> jcontainer list" where
  "begin_value st c =
     (if c = CHR ''{'' then (ObjectStart, InObject # st)
      else if c = CHR ''['' then (ArrayStart, InArray # st)
      else if c = CHR 0x22 then (InString False, st)
      else if c = CHR ''-'' then (NumMinus, st)
      else if c = CHR ''0'' then (NumZero, st)
      else if is_digit c then (NumInt, st)
      else if c = CHR ''t'' then (Literal ''rue'', st)
      else if c = CHR ''f'' then (Literal ''alse'', st)
      else if c = CHR ''n'' then (Literal ''ull'', st)
      else (Reject, st))"

definition after_value :: "jcontainer list \<Rightarrow> char \<Rightarrow> jstate \<times> jcontainer list" where
  "after_value st c =
     (if is_ws c then (AfterValue, st)
      else case st of
             [] \<Rightarrow> (Reject, st)
           | InArray # r \<Rightarrow>
               if c = CHR '','' then (ExpectValue, st)
               else if c = CHR '']'' then (AfterValue, r) else (Reject, st)
           | InObject # r \<Rightarrow>
               if c = CHR '','' then (ExpectKey, st)
               else if c = CHR ''}'' then (AfterValue, r) else (Reject, st))"

fun json_step :: "jstate \<times> jcontainer list \<Rightarrow> char \<Rightarrow> jstate \<times> jcontainer list" where
  "json_step (ExpectValue, st) c = (if is_ws c then (ExpectValue, st) else begin_value st c)"
| "json_step (ArrayStart, st) c =
     (if is_ws c then (ArrayStart, st)
      else if c = CHR '']'' then (AfterValue, tl st) else begin_value st c)"
| "json_step (ObjectStart, st) c =
     (if is_ws c then (ObjectStart, st)
      else if c = CHR 0x22 then (InString True, st)
      else if c = CHR ''}'' then (AfterValue, tl st) else (Reject, st))"
| "json_step (ExpectKey, st) c =
     (if is_ws c then (ExpectKey, st)
      else if c = CHR 0x22 then (InString True, st) else (Reject, st))"
| "json_step (ExpectColon, st) c =
     (if is_ws c then (ExpectColon, st)
      else if c = CHR '':'' then (ExpectValue, st) else (Reject, st))"
| "json_step (AfterValue, st) c = after_value st c"
| "json_step (InString k, st) c =
     (if c = CHR 0x22 then (if k then ExpectColon else AfterValue, st)
      else if c = CHR 0x5C then (Escape k, st)
      else if (of_char c :: nat) < 32 then (Reject, st) else (InString k, st))"
| "json_step (Escape k, st) c =
     (if c = CHR 0x22 \<or> c = CHR 0x5C \<or> c \<in> set ''/bfnrt'' then (InString k, st)
      else if c = CHR ''u'' then (Unicode k 4, st) else (Reject, st))"
| "json_step (Unicode k n, st) c =
     (if is_hex c then (if n \<le> 1 then InString k else Unicode k (n - 1), st) else (Reject, st))"
| "json_step (Literal r, st) c =
     (case r of
        [] \<Rightarrow> (Reject, st)
      | a # r' \<Rightarrow> if c = a then (if r' = [] then AfterValue else Literal r', st) else (Reject, st))"
| "json_step (NumMinus, st) c =
     (if c = CHR ''0'' then (NumZero, st) else if is_digit c then (NumInt, st) else (Reject, st))"
| "json_step (NumZero, st) c =
     (if c = CHR ''.'' then (NumDot, st)
      else if c = CHR ''e'' \<or> c = CHR ''E'' then (NumE, st) else after_value st c)"
| "json_step (NumInt, st) c =
     (if is_digit c then (NumInt, st)
      else if c = CHR ''.'' then (NumDot, st)
      else if c = CHR ''e'' \<or> c = CHR ''E'' then (NumE, st) else after_value st c)"
| "json_step (NumDot, st) c = (if is_digit c then (NumFrac, st) else (Reject, st))"
| "json_step (NumFrac, st) c =
     (if is_digit c then (NumFrac, st)
      else if c = CHR ''e'' \<or> c = CHR ''E'' then (NumE, st) else after_value st c)"
| "json_step (NumE, st) c =
     (if c = CHR ''+'' \<or> c = CHR ''-'' then (NumESign, st)
      else if is_digit c then (NumExp, st) else (Reject, st))"
| "json_step (NumESign, st) c = (if is_digit c then (NumExp, st) else (Reject, st))"
| "json_step (NumExp, st) c = (if is_digit c then (NumExp, st) else after_value st c)"
| "json_step (Reject, st) c = (Reject, st)"

definition json_accepting :: "jstate \<times> jcontainer list \<Rightarrow> bool" where
  "json_accepting q \<longleftrightarrow>
     snd q = [] \<and> fst q \<in> set [AfterValue, NumZero, NumInt, NumFrac, NumExp]"

definition json_valid :: "string \<Rightarrow> bool" where
  "json_valid text = json_accepting (foldl json_step (ExpectValue, []) text)"

definition JSON_parse :: "(string \<Rightarrow> 'v) \<Rightarrow> string \<Rightarrow> exn + 'v" where
  "JSON_parse decode text = (if json_valid text then Inr (decode text) else Inl SyntaxError)"

text \<open>
  \<^verbatim>\<open>const [rootNode, setRootNode] = useState<MindMapNode>(() => {
    const savedMindMap = localStorage.getItem("mindMap");
    return savedMindMap ? JSON.parse(savedMindMap)
      : { id: "root", content: "Central Idea", children: [], x: 0, y: 0, color: "#9b87f5" };
  });\<close>
  \<^verbatim>\<open>getItem\<close> returns \<^verbatim>\<open>null\<close> for a key that is not stored; \<^verbatim>\<open>null\<close> and the
  empty string are the two values the conditional takes for false. There is no
  \<^verbatim>\<open>try\<close> around the call of \<^verbatim>\<open>JSON.parse\<close>, so what it throws leaves the
  initialiser: the result is \<open>Inl\<close> of the exception.
\<close>

definition rootNode_init ::
  "(string \<Rightarrow> 'n MindMapNode) \<Rightarrow> 'n js_arith \<Rightarrow> (string \<rightharpoonup> string) \<Rightarrow> exn + 'n MindMapNode" where
  "rootNode_init decode A localStorage =
     (case localStorage ''mindMap'' of
        None \<Rightarrow> Inr (default_root A)
      | Some savedMindMap \<Rightarrow>
          if savedMindMap = [] then Inr (default_root A) else JSON_parse decode savedMindMap)"

text \<open>
  \<^verbatim>\<open>const [tasks, setTasks] = useState<Task[]>(() => {
    const savedTasks = localStorage.getItem("tasks");
    return savedTasks ? JSON.parse(savedTasks) : [];
  });\<close>
\<close>

datatype Priority = Low | Medium | High

record Task =
  task_id :: string
  title :: string
  priority :: Priority
  completed :: bool

definition tasks_init ::
  "(string \<Rightarrow> Task list) \<Rightarrow> (string \<rightharpoonup> string) \<Rightarrow> exn + Task list" where
  "tasks_init decode localStorage =
     (case localStorage ''tasks'' of
        None \<Rightarrow> Inr []
      | Some savedTasks \<Rightarrow> if savedTasks = [] then Inr [] else JSON_parse decode savedTasks)"

section \<open>Serialising the tree and reading it back\<close>

text \<open>
  The page stores \<^verbatim>\<open>JSON.stringify(rootNode)\<close> under the key \<^verbatim>\<open>"mindMap"\<close> whenever
  the tree changes, reads it back with \<^verbatim>\<open>JSON.parse\<close> when it starts, and exports
  \<^verbatim>\<open>JSON.stringify(rootNode, null, 2)\<close>. Both functions are built-ins of the platform;
  they are modelled here as the language standard describes them, over JSON values. A
  number is kept as its literal, and an object as the list of its members in the order
  of the text.
\<close>

datatype json =
    JNull | JBool bool | JNumber string | JString string
  | JArray "json list" | JObject "(string \<times> json) list"

text \<open>
  \<^verbatim>\<open>JSON.stringify\<close> quotes a string and escapes the quotation mark, the backslash and
  the control characters (the named ones as \<^verbatim>\<open>\b \f \n \r \t\<close>, the others as
  \<^verbatim>\<open>\u00XX\<close> in lower-case hexadecimal).
\<close>

definition hex_digit :: "nat \<Rightarrow> char" where
  "hex_digit n = ''0123456789abcdef'' ! n"

definition escape_char :: "char \<Rightarrow> string" where
  "escape_char c =
     (if c = CHR 0x22 then [CHR 0x5C, CHR 0x22]
      else if c = CHR 0x5C then [CHR 0x5C, CHR 0x5C]
      else if c = CHR 0x08 then [CHR 0x5C, CHR ''b'']
      else if c = CHR 0x0C then [CHR 0x5C, CHR ''f'']
      else if c = CHR 0x0A then [CHR 0x5C, CHR ''n'']
      else if c = CHR 0x0D then [CHR 0x5C, CHR ''r'']
      else if c = CHR 0x09 then [CHR 0x5C, CHR ''t'']
      else if (of_char c :: nat) < 32
        then [CHR 0x5C, CHR ''u'', CHR ''0'', CHR ''0'',
              hex_digit (of_char c div 16), hex_digit (of_char c mod 16)]
      else [c])"

definition json_quote :: "string \<Rightarrow> string" where
  "json_quote s = CHR 0x22 # concat (map escape_char s) @ [CHR 0x22]"

text \<open>
  The text of a value. \<open>gap\<close> is the number of spaces of one indentation step (0 for
  \<^verbatim>\<open>JSON.stringify(v)\<close>, 2 for \<^verbatim>\<open>JSON.stringify(v, null, 2)\<close>) and \<open>ind\<close> the
  indentation of the enclosing line. With a gap, every element and member starts on a
  line of its own and a colon is followed by a space; empty arrays and objects are
  \<^verbatim>\<open>[]\<close> and \<^verbatim>\<open>{}\<close> in both forms.
\<close>

fun join_with :: "string \<Rightarrow> string list \<Rightarrow> string" where
  "join_with sep [] = []"
| "join_with sep [x] = x"
| "join_with sep (x # y # ys) = x @ sep @ join_with sep (y # ys)"

definition nl :: "nat \<Rightarrow> nat \<Rightarrow> string" where
  "nl gap ind = (if gap = 0 then [] else CHR 0x0A # replicate ind CHR '' '')"

definition sp :: "nat \<Rightarrow> string" where
  "sp gap = (if gap = 0 then [] else '' '')"

fun JSON_text :: "nat \<Rightarrow> nat \<Rightarrow> json \<Rightarrow> string" where
  "JSON_text gap ind JNull = ''null''"
| "JSON_text gap ind (JBool b) = (if b then ''true'' else ''false'')"
| "JSON_text gap ind (JNumber t) = t"
| "JSON_text gap ind (JString s) = json_quote s"
| "JSON_text gap ind (JArray vs) =
     (if vs = [] then ''[]''
      else ''['' @ nl gap (ind + gap) @
           join_with ('','' @ nl gap (ind + gap)) (map (JSON_text gap (ind + gap)) vs) @
           nl gap ind @ '']'')"
| "JSON_text gap ind (JObject ms) =
     (if ms = [] then ''{}''
      else ''{'' @ nl gap (ind + gap) @
           join_with ('','' @ nl gap (ind + gap))
             (map (\<lambda>m. json_quote (fst m) @ '':'' @ sp gap @ JSON_text gap (ind + gap) (snd m)) ms) @
           nl gap ind @ ''}'')"

definition JSON_stringify :: "nat \<Rightarrow> json \<Rightarrow> string" where
  "JSON_stringify gap v = JSON_text gap 0 v"

text \<open>
  The value \<^verbatim>\<open>JSON.parse\<close> builds. \<open>data_step\<close> runs in step with \<open>json_step\<close>: the
  control state before the character says what the character means. \<open>frames\<close> holds
  the arrays and objects that are open, innermost first, an object with the key that
  was read last; \<open>buf\<close> holds the characters of the string or number being read;
  \<open>hex\<close> the value of a \<^verbatim>\<open>\u\<close> escape; \<open>result\<close> the finished value. A number ends
  with the first character that cannot continue it, or with the text (\<open>settle\<close>).
  The strings of this theory have 8-bit characters: an escape above \<^verbatim>\<open>\u00ff\<close> has no
  character here, and \<open>char_of\<close> keeps its low byte; \<^verbatim>\<open>JSON.stringify\<close> writes no
  such escape for an 8-bit string.
\<close>

datatype frame = FArray "json list" | FObject "(string \<times> json) list" string

record jdata =
  frames :: "frame list"
  buf :: string
  hex :: nat
  result :: "json option"

definition attach :: "json \<Rightarrow> jdata \<Rightarrow> jdata" where
  "attach v d =
     (case frames d of
        [] \<Rightarrow> d\<lparr>buf := [], hex := 0, result := Some v\<rparr>
      | FArray xs # fs \<Rightarrow> d\<lparr>frames := FArray (xs @ [v]) # fs, buf := [], hex := 0\<rparr>
      | FObject ms k # fs \<Rightarrow> d\<lparr>frames := FObject (ms @ [(k, v)]) k # fs, buf := [], hex := 0\<rparr>)"

definition close_frame :: "jdata \<Rightarrow> jdata" where
  "close_frame d =
     (case frames d of
        [] \<Rightarrow> d
      | FArray xs # fs \<Rightarrow> attach (JArray xs) (d\<lparr>frames := fs\<rparr>)
      | FObject ms k # fs \<Rightarrow> attach (JObject ms) (d\<lparr>frames := fs\<rparr>))"

definition set_key :: "jdata \<Rightarrow> jdata" where
  "set_key d =
     (case frames d of
        FObject ms k # fs \<Rightarrow> d\<lparr>frames := FObject ms (buf d) # fs, buf := [], hex := 0\<rparr>
      | _ \<Rightarrow> d\<lparr>buf := [], hex := 0\<rparr>)"

definition begin_data :: "char \<Rightarrow> jdata \<Rightarrow> jdata" where
  "begin_data c d =
     (if c = CHR ''{'' then d\<lparr>frames := FObject [] [] # frames d\<rparr>
      else if c = CHR ''['' then d\<lparr>frames := FArray [] # frames d\<rparr>
      else if c = CHR 0x22 then d\<lparr>buf := [], hex := 0\<rparr>
      else d\<lparr>buf := [c]\<rparr>)"

definition after_data :: "jcontainer list \<Rightarrow> char \<Rightarrow> jdata \<Rightarrow> jdata" where
  "after_data st c d =
     (if is_ws c then d
      else case st of
             [] \<Rightarrow> d
           | InArray # r \<Rightarrow> if c = CHR '']'' then close_frame d else d
           | InObject # r \<Rightarrow> if c = CHR ''}'' then close_frame d else d)"

definition unescape :: "char \<Rightarrow> char" where
  "unescape c =
     (if c = CHR ''b'' then CHR 0x08 else if c = CHR ''f'' then CHR 0x0C
      else if c = CHR ''n'' then CHR 0x0A else if c = CHR ''r'' then CHR 0x0D
      else if c = CHR ''t'' then CHR 0x09 else c)"

definition hex_val :: "char \<Rightarrow> nat" where
  "hex_val c =
     (if is_digit c then of_char c - 48
      else if c \<in> set ''abcdef'' then of_char c - 87 else of_char c - 55)"

definition literal_value :: "string \<Rightarrow> json" where
  "literal_value b = (if b = ''t'' then JBool True else if b = ''f'' then JBool False else JNull)"

definition push_char :: "char \<Rightarrow> jdata \<Rightarrow> jdata" where
  "push_char c d = d\<lparr>buf := buf d @ [c]\<rparr>"

definition end_number :: "jcontainer list \<Rightarrow> char \<Rightarrow> jdata \<Rightarrow> jdata" where
  "end_number st c d = after_data st c (attach (JNumber (buf d)) d)"

fun data_step :: "jstate \<times> jcontainer list \<Rightarrow> char \<Rightarrow> jdata \<Rightarrow> jdata" where
  "data_step (ExpectValue, st) c d = (if is_ws c then d else begin_data c d)"
| "data_step (ArrayStart, st) c d =
     (if is_ws c then d else if c = CHR '']'' then close_frame d else begin_data c d)"
| "data_step (ObjectStart, st) c d =
     (if is_ws c then d
      else if c = CHR 0x22 then d\<lparr>buf := [], hex := 0\<rparr>
      else if c = CHR ''}'' then close_frame d else d)"
| "data_step (ExpectKey, st) c d = (if c = CHR 0x22 then d\<lparr>buf := [], hex := 0\<rparr> else d)"
| "data_step (ExpectColon, st) c d = d"
| "data_step (AfterValue, st) c d = after_data st c d"
| "data_step (InString k, st) c d =
     (if c = CHR 0x22 then (if k then set_key d else attach (JString (buf d)) d)
      else if c = CHR 0x5C then d else push_char c d)"
| "data_step (Escape k, st) c d =
     (if c = CHR ''u'' then d\<lparr>hex := 0\<rparr> else push_char (unescape c) d)"
| "data_step (Unicode k n, st) c d =
     (if n \<le> 1 then (push_char (char_of (hex d * 16 + hex_val c)) d)\<lparr>hex := 0\<rparr>
      else d\<lparr>hex := hex d * 16 + hex_val c\<rparr>)"
| "data_step (Literal r, st) c d = (if r = [c] then attach (literal_value (buf d)) d else d)"
| "data_step (NumMinus, st) c d = push_char c d"
| "data_step (NumZero, st) c d =
     (if c = CHR ''.'' \<or> c = CHR ''e'' \<or> c = CHR ''E'' then push_char c d else end_number st c d)"
| "data_step (NumInt, st) c d =
     (if is_digit c \<or> c = CHR ''.'' \<or> c = CHR ''e'' \<or> c = CHR ''E'' then push_char c d
      else end_number st c d)"
| "data_step (NumDot, st) c d = push_char c d"
| "data_step (NumFrac, st) c d =
     (if is_digit c \<or> c = CHR ''e'' \<or> c = CHR ''E'' then push_char c d else end_number st c d)"
| "data_step (NumE, st) c d = push_char c d"
| "data_step (NumESign, st) c d = push_char c d"
| "data_step (NumExp, st) c d = (if is_digit c then push_char c d else end_number st c d)"
| "data_step (Reject, st) c d = d"

type_synonym jconfig = "(jstate \<times> jcontainer list) \<times> jdata"

definition jstep :: "jconfig \<Rightarrow> char \<Rightarrow> jconfig" where
  "jstep cf c = (json_step (fst cf) c, data_step (fst cf) c (snd cf))"

definition jrun :: "jconfig \<Rightarrow> string \<Rightarrow> jconfig" where
  "jrun cf text = foldl jstep cf text"

definition num_done :: "jstate \<Rightarrow> bool" where
  "num_done s \<longleftrightarrow> s \<in> set [NumZero, NumInt, NumFrac, NumExp]"

definition settle :: "jconfig \<Rightarrow> jconfig" where
  "settle cf =
     (if num_done (fst (fst cf))
      then ((AfterValue, snd (fst cf)), attach (JNumber (buf (snd cf))) (snd cf))
      else cf)"

definition empty_data :: jdata where
  "empty_data = \<lparr>frames = [], buf = [], hex = 0, result = None\<rparr>"

definition json_value :: "string \<Rightarrow> json option" where
  "json_value text = result (snd (settle (jrun ((ExpectValue, []), empty_data) text)))"

text \<open>The number literals of JSON, as an automaton of their own, and the values all of
  whose numbers are such literals.\<close>

fun num_step :: "jstate \<Rightarrow> char \<Rightarrow> jstate" where
  "num_step ExpectValue c =
     (if c = CHR ''-'' then NumMinus else if c = CHR ''0'' then NumZero
      else if is_digit c then NumInt else Reject)"
| "num_step NumMinus c =
     (if c = CHR ''0'' then NumZero else if is_digit c then NumInt else Reject)"
| "num_step NumZero c =
     (if c = CHR ''.'' then NumDot else if c = CHR ''e'' \<or> c = CHR ''E'' then NumE else Reject)"
| "num_step NumInt c =
     (if is_digit c then NumInt else if c = CHR ''.'' then NumDot
      else if c = CHR ''e'' \<or> c = CHR ''E'' then NumE else Reject)"
| "num_step NumDot c = (if is_digit c then NumFrac else Reject)"
| "num_step NumFrac c =
     (if is_digit c then NumFrac else if c = CHR ''e'' \<or> c = CHR ''E'' then NumE else Reject)"
| "num_step NumE c =
     (if c = CHR ''+'' \<or> c = CHR ''-'' then NumESign else if is_digit c then NumExp else Reject)"
| "num_step NumESign c = (if is_digit c then NumExp else Reject)"
| "num_step NumExp c = (if is_digit c then NumExp else Reject)"
| "num_step s c = Reject"

definition is_json_number :: "string \<Rightarrow> bool" where
  "is_json_number t \<longleftrightarrow> num_done (foldl num_step ExpectValue t)"

fun json_ok :: "json \<Rightarrow> bool" where
  "json_ok (JNumber t) = is_json_number t"
| "json_ok (JArray vs) = list_all json_ok vs"
| "json_ok (JObject ms) = list_all (\<lambda>m. json_ok (snd m)) ms"
| "json_ok v = True"

text \<open>Control states that skip white space, the characters that end a value, and the
  states in which a value or a key may start.\<close>

definition skips :: "jstate \<Rightarrow> bool" where
  "skips s \<longleftrightarrow> s \<in> set [ExpectValue, ArrayStart, ObjectStart, ExpectKey, ExpectColon, AfterValue]"

definition is_delim :: "char \<Rightarrow> bool" where
  "is_delim c \<longleftrightarrow> is_ws c \<or> c = CHR '','' \<or> c = CHR '']'' \<or> c = CHR ''}''"

definition starts :: "jstate \<Rightarrow> bool" where
  "starts s \<longleftrightarrow> s = ExpectValue \<or> s = ArrayStart"

definition key_pos :: "jstate \<Rightarrow> bool" where
  "key_pos s \<longleftrightarrow> s = ObjectStart \<or> s = ExpectKey"

text \<open>
  The object that \<^verbatim>\<open>JSON.stringify\<close> sees in a node: its properties in the order they
  were created, without those that are \<^verbatim>\<open>undefined\<close>. In every node the page builds,
  \<^verbatim>\<open>id\<close>, \<^verbatim>\<open>content\<close> and \<^verbatim>\<open>children\<close> come first; the literal of the root then
  has \<^verbatim>\<open>x\<close>, \<^verbatim>\<open>y\<close>, \<^verbatim>\<open>color\<close>, while a node built by \<^verbatim>\<open>addChildNode\<close> has
  \<^verbatim>\<open>color\<close> and gets \<^verbatim>\<open>x\<close> and \<^verbatim>\<open>y\<close> from the layout. \<open>pos_first\<close> says which of
  the two orders a node has. \<open>num_text\<close> is the text of a number, \<open>None\<close> for
  \<^verbatim>\<open>NaN\<close> and the infinities, which \<^verbatim>\<open>JSON.stringify\<close> writes as \<^verbatim>\<open>null\<close>.
\<close>

definition number_member :: "('n \<Rightarrow> string option) \<Rightarrow> string \<Rightarrow> 'n option \<Rightarrow> (string \<times> json) list" where
  "number_member num_text k v =
     (case v of
        None \<Rightarrow> []
      | Some r \<Rightarrow> [(k, case num_text r of None \<Rightarrow> JNull | Some t \<Rightarrow> JNumber t)])"

fun node_json ::
  "('n MindMapNode \<Rightarrow> bool) \<Rightarrow> ('n \<Rightarrow> string option) \<Rightarrow> 'n MindMapNode \<Rightarrow> json" where
  "node_json pos_first num_text (Node i c ch px py col) =
     (let pos = number_member num_text ''x'' px @ number_member num_text ''y'' py;
          colour = (case col of None \<Rightarrow> [] | Some s \<Rightarrow> [(''color'', JString s)])
      in JObject
           ([(''id'', JString i), (''content'', JString c),
             (''children'', JArray (map (node_json pos_first num_text) ch))] @
            (if pos_first (Node i c ch px py col) then pos @ colour else colour @ pos)))"

text \<open>
  The parsed value read as a \<^verbatim>\<open>MindMapNode\<close>, property by property, which is what the
  page does when it uses the result of \<^verbatim>\<open>JSON.parse\<close> at that type. A key that occurs
  twice has the value of its last member; \<^verbatim>\<open>null\<close> in an optional property reads like
  a missing one; \<open>read_num\<close> is the number a literal denotes. A value that has not the
  shape of a node is \<open>None\<close>.
\<close>

definition lookup_member :: "string \<Rightarrow> (string \<times> json) list \<Rightarrow> json option" where
  "lookup_member k ms = map_of (rev ms) k"

definition number_field :: "(string \<Rightarrow> 'n) \<Rightarrow> json option \<Rightarrow> 'n option option" where
  "number_field read_num f =
     (case f of
        None \<Rightarrow> Some None
      | Some JNull \<Rightarrow> Some None
      | Some (JNumber t) \<Rightarrow> Some (Some (read_num t))
      | Some other \<Rightarrow> None)"

definition string_field :: "json option \<Rightarrow> string option option" where
  "string_field f =
     (case f of
        None \<Rightarrow> Some None
      | Some JNull \<Rightarrow> Some None
      | Some (JString s) \<Rightarrow> Some (Some s)
      | Some other \<Rightarrow> None)"

lemma size_map_of:
  "map_of ys k = Some v \<Longrightarrow> size (v::json) \<le> size_list (size_prod (\<lambda>x. 0) size) ys"
  by (induction ys) (auto split: if_splits)

lemma size_member:
  "lookup_member k ms = Some v \<Longrightarrow> size v < size (JObject ms)"
proof -
  assume "lookup_member k ms = Some v"
  then have "size v \<le> size_list (size_prod (\<lambda>x. 0) size) (rev ms)"
    unfolding lookup_member_def by (rule size_map_of)
  also have "\<dots> = size_list (size_prod (\<lambda>x. 0) size) ms"
    by (induction ms) (simp_all add: size_list_append)
  finally show ?thesis by simp
qed

lemma size_element:
  assumes "Some (JArray vs) = lookup_member k ms" "x \<in> set vs"
  shows "size x < Suc (size_list (size_prod (\<lambda>x. 0) size) ms)"
proof -
  from assms(1) have "size (JArray vs) < size (JObject ms)"
    by (intro size_member [of k]) simp
  moreover from assms(2) have "size x \<le> size_list size vs"
    by (induction vs) auto
  ultimately show ?thesis by simp
qed

function json_node :: "(string \<Rightarrow> 'n) \<Rightarrow> json \<Rightarrow> 'n MindMapNode option" where
  "json_node read_num (JObject ms) =
     (case (lookup_member ''id'' ms, lookup_member ''content'' ms, lookup_member ''children'' ms,
            number_field read_num (lookup_member ''x'' ms), number_field read_num (lookup_member ''y'' ms),
            string_field (lookup_member ''color'' ms)) of
        (Some (JString i), Some (JString c), Some (JArray vs), Some px, Some py, Some col) \<Rightarrow>
          map_option (\<lambda>ch. Node i c ch px py col) (those (map (json_node read_num) vs))
      | other \<Rightarrow> None)"
| "json_node read_num JNull = None"
| "json_node read_num (JBool b) = None"
| "json_node read_num (JNumber t) = None"
| "json_node read_num (JString s) = None"
| "json_node read_num (JArray vs) = None"
  by pat_completeness auto

termination
  by (relation "measure (\<lambda>(read_num, v). size v)") (auto intro: size_element)

text \<open>The tree after the round trip: each position is the number read from its text, or
  missing when the number had none.\<close>

fun reread :: "(string \<Rightarrow> 'n) \<Rightarrow> ('n \<Rightarrow> string option) \<Rightarrow> 'n MindMapNode \<Rightarrow> 'n MindMapNode" where
  "reread read_num num_text (Node i c ch px py col) =
     Node i c (map (reread read_num num_text) ch)
       (case px of None \<Rightarrow> None | Some r \<Rightarrow> map_option read_num (num_text r))
       (case py of None \<Rightarrow> None | Some r \<Rightarrow> map_option read_num (num_text r))
       col"

text \<open>
  \<^verbatim>\<open>useEffect(() => { localStorage.setItem("mindMap", JSON.stringify(rootNode)); }, [rootNode]);\<close>
  and, in \<^verbatim>\<open>exportMindMap\<close>, \<^verbatim>\<open>const dataStr = JSON.stringify(rootNode, null, 2);\<close>
\<close>

definition saveMindMap ::
  "('n MindMapNode \<Rightarrow> bool) \<Rightarrow> ('n \<Rightarrow> string option) \<Rightarrow> 'n page \<Rightarrow>
   (string \<rightharpoonup> string) \<Rightarrow> (string \<rightharpoonup> string)" where
  "saveMindMap pos_first num_text s localStorage =
     localStorage(''mindMap'' \<mapsto> JSON_stringify 0 (node_json pos_first num_text (rootNode s)))"

definition exportMindMap :: "('n MindMapNode \<Rightarrow> bool) \<Rightarrow> ('n \<Rightarrow> string option) \<Rightarrow> 'n page \<Rightarrow> string" where
  "exportMindMap pos_first num_text s = JSON_stringify 2 (node_json pos_first num_text (rootNode s))"

text \<open>A small map and a page on it, used to run the handlers on concrete input.\<close>

definition example_tree :: "real MindMapNode" where
  "example_tree =
     Node ''root'' ''Central Idea''
       [Node ''node-1'' ''Plan''
          [Node ''node-3'' ''Budget'' [] None None (Some ''#E5DEFF'')]
          None None (Some ''#FFDEE2''),
        Node ''node-2'' ''Team'' [] None None (Some ''#D3E4FD'')]
       (Some 0) (Some 0) (Some ''#9b87f5'')"

definition example_page :: "real page" where
  "example_page =
     \<lparr>rootNode = example_tree, editingNodeId = Some ''node-2'', editNodeContent = ''Crew'',
      zoom = 1, offset = (0, 0), toasts = []\<rparr>"

definition initial_page :: "real page" where
  "initial_page =
     \<lparr>rootNode = default_root real_arith, editingNodeId = None, editNodeContent = [],
      zoom = 1, offset = (0, 0), toasts = []\<rparr>"

text \<open>A root with four children, one of which has a child of its own.\<close>

definition star_tree :: "real MindMapNode" where
  "star_tree =
     Node ''root'' ''Central Idea''
       [Node ''node-1'' ''East'' [] None None None,
        Node ''node-2'' ''South'' [Node ''node-5'' ''Leaf'' [] None None None] None None None,
        Node ''node-3'' ''West'' [] None None None,
        Node ''node-4'' ''North'' [] None None None]
       (Some 0) (Some 0) (Some ''#9b87f5'')"

definition star_page :: "real page" where
  "star_page =
     \<lparr>rootNode = star_tree, editingNodeId = None, editNodeContent = [],
      zoom = 1, offset = (0, 0), toasts = []\<rparr>"

text \<open>
  A number text for the examples: the integers in decimal, no text for any other number.
  \<open>root_first\<close> gives the root the key order of its literal, and \<open>example_decode\<close>
  reads a stored text as a node (as an empty node when the text is none).
\<close>

definition int_text :: "int \<Rightarrow> string" where
  "int_text i = (if i < 0 then ''-'' else []) @ string_of_nat (nat \<bar>i\<bar>)"

definition whole_text :: "real \<Rightarrow> string option" where
  "whole_text r = (if r = of_int \<lfloor>r\<rfloor> then Some (int_text \<lfloor>r\<rfloor>) else None)"

definition root_first :: "real MindMapNode \<Rightarrow> bool" where
  "root_first n \<longleftrightarrow> node_id n = ''root''"

definition example_decode :: "string \<Rightarrow> real MindMapNode" where
  "example_decode s =
     (case json_value s of
        Some v \<Rightarrow> (case json_node (\<lambda>t. 0) v of Some t \<Rightarrow> t | None \<Rightarrow> Node [] [] [] None None None)
      | None \<Rightarrow> Node [] [] [] None None None)"

section \<open>Facts about the tree operations\<close>

lemma ids_Node: "ids (Node i c ch px py col) = i # concat (map ids ch)"
  by (simp add: ids_def [abs_def] map_concat comp_def)

lemma node_id_removeNodeFromTree: "node_id (removeNodeFromTree nodeId t) = node_id t"
  by (cases t) simp

lemma ids_removeNodeFromTree:
  "node_id t \<noteq> nodeId \<Longrightarrow> nodeId \<notin> set (ids (removeNodeFromTree nodeId t))"
proof (induction t)
  case (Node i c ch px py col)
  have "nodeId \<notin> set (ids (removeNodeFromTree nodeId child))"
    if "child \<in> set ch" "node_id child \<noteq> nodeId" for child
    using Node.IH that by simp
  with Node.prems show ?case
    by (auto simp: ids_Node)
qed

lemma addChildToNode_absent:
  "parentId \<notin> set (ids t) \<Longrightarrow> addChildToNode parentId n t = t"
proof (induction t)
  case (Node i c ch px py col)
  then have "map (addChildToNode parentId n) ch = ch"
    by (intro map_idI) (auto simp: ids_Node)
  with Node.prems show ?case by (auto simp: ids_Node)
qed

lemma updateNodeContent_absent:
  "e \<notin> set (ids t) \<Longrightarrow> updateNodeContent e v t = t"
proof (induction t)
  case (Node i c ch px py col)
  then have "map (updateNodeContent e v) ch = ch"
    by (intro map_idI) (auto simp: ids_Node)
  with Node.prems show ?case by (auto simp: ids_Node)
qed

lemma erase_content_updateNodeContent:
  "erase_content (updateNodeContent e v t) = erase_content t"
  by (induction t) simp_all

lemma other_contents_updateNodeContent:
  "map node_content (filter (\<lambda>n. node_id n \<noteq> e) (nodes (updateNodeContent e v t))) =
   map node_content (filter (\<lambda>n. node_id n \<noteq> e) (nodes t))"
proof (induction t)
  case (Node i c ch px py col)
  have "map (\<lambda>t. map node_content (filter (\<lambda>n. node_id n \<noteq> e) (nodes (updateNodeContent e v t)))) ch =
        map (\<lambda>t. map node_content (filter (\<lambda>n. node_id n \<noteq> e) (nodes t))) ch"
    using Node.IH by simp
  then have "concat (map (\<lambda>t. map node_content (filter (\<lambda>n. node_id n \<noteq> e) (nodes (updateNodeContent e v t)))) ch) =
        concat (map (\<lambda>t. map node_content (filter (\<lambda>n. node_id n \<noteq> e) (nodes t))) ch)"
    by (rule arg_cong)
  then show ?case
    by (simp add: filter_concat map_concat comp_def)
qed

lemma count_nodes_Node:
  "count_nodes (Node i c ch px py col) = Suc (sum_list (map count_nodes ch))"
  by (simp add: count_nodes_def [abs_def] length_concat comp_def)

lemma count_list_concat:
  "count_list (concat xss) a = sum_list (map (\<lambda>xs. count_list xs a) xss)"
  by (induction xss) simp_all

lemma count_addChildToNode:
  "count_list (ids t) parentId \<le> 1 \<Longrightarrow>
   count_nodes (addChildToNode parentId n t) =
   count_nodes t + count_list (ids t) parentId * count_nodes n"
proof (induction t)
  case (Node i c ch px py col)
  show ?case
  proof (cases "i = parentId")
    case True
    with Node.prems have "count_list (concat (map ids ch)) parentId = 0"
      by (simp add: ids_Node)
    with True show ?thesis
      by (simp add: ids_Node count_nodes_Node)
  next
    case False
    with Node.prems have le: "sum_list (map (\<lambda>t. count_list (ids t) parentId) ch) \<le> 1"
      by (simp add: ids_Node count_list_concat comp_def)
    have "count_list (ids t) parentId \<le> 1" if "t \<in> set ch" for t
    proof -
      from that have "count_list (ids t) parentId \<in> set (map (\<lambda>t. count_list (ids t) parentId) ch)"
        by auto
      then have "count_list (ids t) parentId \<le> sum_list (map (\<lambda>t. count_list (ids t) parentId) ch)"
        by (rule member_le_sum_list) simp
      with le show ?thesis by simp
    qed
    with Node.IH have "map (\<lambda>t. count_nodes (addChildToNode parentId n t)) ch =
        map (\<lambda>t. count_nodes t + count_list (ids t) parentId * count_nodes n) ch"
      by simp
    then have "sum_list (map (\<lambda>t. count_nodes (addChildToNode parentId n t)) ch) =
        sum_list (map (\<lambda>t. count_nodes t + count_list (ids t) parentId * count_nodes n) ch)"
      by (rule arg_cong)
    also have "\<dots> = sum_list (map count_nodes ch) +
        sum_list (map (\<lambda>t. count_list (ids t) parentId) ch) * count_nodes n"
      by (induction ch) (simp_all add: algebra_simps)
    finally show ?thesis using False
      by (simp add: ids_Node count_nodes_Node count_list_concat comp_def)
  qed
qed

lemma find_append_eq:
  "find P (xs @ ys) = (case find P xs of None \<Rightarrow> find P ys | Some a \<Rightarrow> Some a)"
  by (induction xs) simp_all

lemma find_concat_map_option:
  "(\<And>c. c \<in> set ch \<Longrightarrow> find P (F c) = map_option u (find P (G c))) \<Longrightarrow>
   find P (concat (map F ch)) = map_option u (find P (concat (map G ch)))"
  by (induction ch) (auto simp: find_append_eq split: option.splits)

lemma find_node_addChildToNode:
  "find_node parentId (addChildToNode parentId n t) =
   map_option (\<lambda>p. set_children (node_children p @ [n]) p) (find_node parentId t)"
proof (induction t)
  case (Node i c ch px py col)
  show ?case
  proof (cases "i = parentId")
    case True
    then show ?thesis by (simp add: find_node_def)
  next
    case False
    have "find (\<lambda>m. node_id m = parentId) (concat (map (\<lambda>t. nodes (addChildToNode parentId n t)) ch)) =
          map_option (\<lambda>p. set_children (node_children p @ [n]) p)
            (find (\<lambda>m. node_id m = parentId) (concat (map nodes ch)))"
      using Node.IH by (intro find_concat_map_option) (simp add: find_node_def)
    with False show ?thesis by (simp add: find_node_def comp_def)
  qed
qed

lemma find_node_updateNodeContent:
  "find_node e (updateNodeContent e v t) = map_option (set_content v) (find_node e t)"
proof (induction t)
  case (Node i c ch px py col)
  show ?case
  proof (cases "i = e")
    case True
    then show ?thesis by (simp add: find_node_def)
  next
    case False
    have "find (\<lambda>m. node_id m = e) (concat (map (\<lambda>t. nodes (updateNodeContent e v t)) ch)) =
          map_option (set_content v) (find (\<lambda>m. node_id m = e) (concat (map nodes ch)))"
      using Node.IH by (intro find_concat_map_option) (simp add: find_node_def)
    with False show ?thesis by (simp add: find_node_def comp_def)
  qed
qed

lemma erase_pos_set_xy: "erase_pos (set_xy vx vy t) = erase_pos t"
  by (cases t) simp

lemma erase_pos_set_children:
  "erase_pos (set_children ch' t) =
   Node (node_id t) (node_content t) (map erase_pos ch') None None (node_color t)"
  by (cases t) simp

lemma erase_pos_sel:
  "erase_pos t = Node (node_id t) (node_content t) (map erase_pos (node_children t)) None None (node_color t)"
  by (cases t) simp

lemma erase_pos_layoutChildren:
  "erase_pos (layoutChildren A node angle distance) = erase_pos node"
proof (induction A node angle distance rule: layoutChildren.induct)
  case (1 A node angle distance)
  show ?case
  proof (cases "node_children node = []")
    case True
    then show ?thesis by (subst layoutChildren.simps) simp
  next
    case False
    let ?nodeX = "or_zero A (node_x node)"
    let ?nodeY = "or_zero A (node_y node)"
    let ?step = "js_div A (js_mul A (js_pi A) (js_nat A 2)) (js_nat A (length (node_children node)))"
    let ?f = "\<lambda>(index, child).
                let childAngle = js_add A angle (js_mul A (js_nat A index) ?step);
                    child' = set_xy (js_add A ?nodeX (js_mul A (js_cos A childAngle) distance))
                                    (js_add A ?nodeY (js_mul A (js_sin A childAngle) distance))
                                    child
                in layoutChildren A child' childAngle (js_mul A distance (js_lit08 A))"
    have step: "erase_pos (?f p) = erase_pos (snd p)"
      if "p \<in> set (enumerate 0 (node_children node))" for p
      using "1.IH" [OF False refl refl refl that] 
      by (cases p) (simp add: Let_def erase_pos_set_xy)
    have "map erase_pos (map ?f (enumerate 0 (node_children node))) =
          map (erase_pos \<circ> snd) (enumerate 0 (node_children node))"
      using step by simp
    also have "\<dots> = map erase_pos (node_children node)"
      by (simp only: map_map [symmetric] map_snd_enumerate)
    finally have ch: "map erase_pos (map ?f (enumerate 0 (node_children node))) =
        map erase_pos (node_children node)" .
    have "layoutChildren A node angle distance =
          set_children (map ?f (enumerate 0 (node_children node))) node"
      using False by (subst layoutChildren.simps) (simp add: Let_def)
    then have "erase_pos (layoutChildren A node angle distance) =
       Node (node_id node) (node_content node)
         (map erase_pos (map ?f (enumerate 0 (node_children node)))) None None (node_color node)"
      by (simp only: erase_pos_set_children)
    also have "\<dots> = erase_pos node"
      by (subst ch) (rule erase_pos_sel [symmetric])
    finally show ?thesis .
  qed
qed

lemma node_x_set_xy: "node_x (set_xy vx vy t) = Some vx" by (cases t) simp
lemma node_y_set_xy: "node_y (set_xy vx vy t) = Some vy" by (cases t) simp

lemma set_children_sel:
  "set_children ch' t = Node (node_id t) (node_content t) ch' (node_x t) (node_y t) (node_color t)"
  by (cases t) simp

lemma erase_pos_eqD:
  assumes "erase_pos t = erase_pos t'"
  shows "node_id t = node_id t'" "node_content t = node_content t'"
    "node_color t = node_color t'"
    "map erase_pos (node_children t) = map erase_pos (node_children t')"
  using assms by (cases t; cases t'; simp)+

lemma layoutChildren_stored_positions:
  "erase_pos node = erase_pos node' \<Longrightarrow> node_x node = node_x node' \<Longrightarrow>
   node_y node = node_y node' \<Longrightarrow>
   layoutChildren A node angle distance = layoutChildren A node' angle distance"
proof (induction A node angle distance arbitrary: node' rule: layoutChildren.induct)
  case (1 A node angle distance)
  note ep = erase_pos_eqD [OF "1.prems"(1)]
  from ep(4) have len: "length (node_children node) = length (node_children node')"
    by (rule map_eq_imp_length_eq)
  show ?case
  proof (cases "node_children node = []")
    case True
    with len have "node_children node' = []" by simp
    with True ep "1.prems" have "node = node'"
      by (intro MindMapNode.expand) simp
    then show ?thesis by simp
  next
    case False
    with len have False': "node_children node' \<noteq> []" by auto
    let ?nodeX = "or_zero A (node_x node)"
    let ?nodeY = "or_zero A (node_y node)"
    let ?step = "js_div A (js_mul A (js_pi A) (js_nat A 2)) (js_nat A (length (node_children node)))"
    let ?f = "\<lambda>(index, child).
                let childAngle = js_add A angle (js_mul A (js_nat A index) ?step);
                    child' = set_xy (js_add A ?nodeX (js_mul A (js_cos A childAngle) distance))
                                    (js_add A ?nodeY (js_mul A (js_sin A childAngle) distance))
                                    child
                in layoutChildren A child' childAngle (js_mul A distance (js_lit08 A))"
    have lhs: "layoutChildren A node angle distance =
          set_children (map ?f (enumerate 0 (node_children node))) node"
      using False by (subst layoutChildren.simps) (simp add: Let_def)
    have rhs: "layoutChildren A node' angle distance =
          set_children (map ?f (enumerate 0 (node_children node'))) node'"
      using False' len "1.prems"(2,3) by (subst layoutChildren.simps) (simp add: Let_def)
    have "map ?f (enumerate 0 (node_children node)) = map ?f (enumerate 0 (node_children node'))"
    proof (rule nth_equalityI)
      show "length (map ?f (enumerate 0 (node_children node))) =
            length (map ?f (enumerate 0 (node_children node')))"
        using len by simp
    next
      fix k assume "k < length (map ?f (enumerate 0 (node_children node)))"
      then have k: "k < length (node_children node)" by simp
      with len have k': "k < length (node_children node')" by simp
      from k have mem: "(k, node_children node ! k) \<in> set (enumerate 0 (node_children node))"
        by (simp add: in_set_enumerate_eq)
      from ep(4) k have ek: "erase_pos (node_children node ! k) = erase_pos (node_children node' ! k)"
        by (metis len nth_map)
      have "?f (k, node_children node ! k) = ?f (k, node_children node' ! k)"
        using "1.IH" [OF False refl refl refl mem refl refl refl,
            of "set_xy (js_add A ?nodeX (js_mul A (js_cos A (js_add A angle (js_mul A (js_nat A k) ?step))) distance))
                       (js_add A ?nodeY (js_mul A (js_sin A (js_add A angle (js_mul A (js_nat A k) ?step))) distance))
                       (node_children node' ! k)"]
        by (simp add: Let_def erase_pos_set_xy ek node_x_set_xy node_y_set_xy)
      with k k' show "map ?f (enumerate 0 (node_children node)) ! k =
                      map ?f (enumerate 0 (node_children node')) ! k"
        by (simp add: nth_enumerate_eq)
    qed
    with lhs rhs ep "1.prems" show ?thesis
      by (simp add: set_children_sel)
  qed
qed

lemma root_ok_ids: "root_ok t \<longleftrightarrow> hd (ids t) = ''root'' \<and> ''root'' \<notin> set (tl (ids t))"
  by (cases t) (simp add: root_ok_def ids_Node)

lemma ids_erase_pos: "ids (erase_pos t) = ids t"
  by (induction t) (simp add: ids_Node cong: map_cong)

lemma ids_erase_content: "ids (erase_content t) = ids t"
  by (induction t) (simp add: ids_Node cong: map_cong)

lemma ids_updateNodeContent: "ids (updateNodeContent e v t) = ids t"
  using erase_content_updateNodeContent [of e v t] ids_erase_content by metis

lemma ids_layoutChildren: "ids (layoutChildren A node angle distance) = ids node"
  using erase_pos_layoutChildren [of A node angle distance] ids_erase_pos by metis

lemma ids_set_xy: "ids (set_xy vx vy t) = ids t"
  by (cases t) (simp add: ids_Node)

lemma ids_addChildToNode:
  "set (ids (addChildToNode parentId n t)) \<subseteq> set (ids t) \<union> set (ids n)"
  by (induction t) (auto simp: ids_Node)

lemma set_ids_removeNodeFromTree:
  "set (ids (removeNodeFromTree nodeId t)) \<subseteq> set (ids t)"
  by (induction t) (auto simp: ids_Node)

lemma root_ok_addChildToNode:
  assumes "root_ok t" "''root'' \<notin> set (ids n)"
  shows "root_ok (addChildToNode parentId n t)"
proof (cases t)
  case (Node i c ch px py col)
  with assms show ?thesis
    using ids_addChildToNode [of parentId n]
    by (auto simp: root_ok_def)
qed

lemma root_ok_removeNodeFromTree:
  assumes "root_ok t"
  shows "root_ok (removeNodeFromTree nodeId t)"
proof (cases t)
  case (Node i c ch px py col)
  with assms show ?thesis
    using set_ids_removeNodeFromTree [of nodeId]
    by (auto simp: root_ok_def)
qed

lemma ids_newNode: "ids (newNode now pick) = [newNodeId now]"
  by (simp add: newNode_def ids_Node)

lemma newNode_not_root: "''root'' \<notin> set (ids (newNode now pick))"
  by (simp add: ids_newNode newNodeId_def)

lemma root_ok_default_root: "root_ok (default_root A)"
  by (simp add: root_ok_def default_root_def)

lemma root_ok_handle:
  "root_ok (rootNode s) \<Longrightarrow> root_ok (rootNode (handle A e s))"
proof (cases e)
  case (AddChild now pick parentId)
  assume "root_ok (rootNode s)"
  then show ?thesis unfolding AddChild
    by (simp add: addChildNode_def root_ok_addChildToNode newNode_not_root)
next
  case (Delete nodeId)
  assume "root_ok (rootNode s)"
  then show ?thesis unfolding Delete
    by (simp add: deleteNode_def root_ok_removeNodeFromTree)
next
  case (Edit node)
  assume "root_ok (rootNode s)"
  then show ?thesis unfolding Edit by (simp add: editNode_def)
next
  case (Typed v)
  assume "root_ok (rootNode s)"
  then show ?thesis unfolding Typed by simp
next
  case SaveEdit
  assume "root_ok (rootNode s)"
  then show ?thesis unfolding SaveEdit
    by (simp add: saveNodeEdit_def root_ok_ids ids_updateNodeContent split: option.splits)
next
  case (Layout canvasRef)
  assume "root_ok (rootNode s)"
  then show ?thesis unfolding Layout
    by (simp add: layoutMindMap_def root_ok_ids ids_layoutChildren ids_set_xy Let_def split: option.splits)
next
  case Reset
  show ?thesis unfolding Reset by (simp add: resetMindMap_def root_ok_default_root)
qed


lemma find_node_present:
  "i \<in> set (ids t) \<Longrightarrow> \<exists>p. find_node i t = Some p"
  by (cases "find_node i t") (auto simp: find_node_def ids_def find_None_iff)

lemma count_nodes_newNode: "count_nodes (newNode now pick) = 1"
  by (simp add: newNode_def count_nodes_Node)

lemma layoutMindMap_rootNode:
  "rootNode (layoutMindMap A (Some cv) s) =
   layoutChildren A
     (set_xy (js_div A (js_nat A (clientWidth cv)) (js_nat A 2))
             (js_div A (js_nat A (clientHeight cv)) (js_nat A 2)) (rootNode s))
     (js_nat A 0) (js_nat A 200)"
  by (simp add: layoutMindMap_def Let_def)

subsection \<open>The placement law\<close>

lemma node_x_layoutChildren: "node_x (layoutChildren A node angle distance) = node_x node"
  by (subst layoutChildren.simps) (cases node, simp add: Let_def)

lemma node_y_layoutChildren: "node_y (layoutChildren A node angle distance) = node_y node"
  by (subst layoutChildren.simps) (cases node, simp add: Let_def)

lemma node_children_layoutChildren:
  "node_children (layoutChildren A node angle distance) =
   map (\<lambda>(index, child).
          let childAngle = js_add A angle (js_mul A (js_nat A index)
                 (js_div A (js_mul A (js_pi A) (js_nat A 2)) (js_nat A (length (node_children node)))));
              child' = set_xy (js_add A (or_zero A (node_x node)) (js_mul A (js_cos A childAngle) distance))
                              (js_add A (or_zero A (node_y node)) (js_mul A (js_sin A childAngle) distance))
                              child
          in layoutChildren A child' childAngle (js_mul A distance (js_lit08 A)))
       (enumerate 0 (node_children node))"
  by (subst layoutChildren.simps) (cases node, simp add: Let_def)

lemma radial_sel:
  "radial A t angle distance \<longleftrightarrow>
     (\<forall>k < length (node_children t).
        let angleStep = js_div A (js_mul A (js_pi A) (js_nat A 2)) (js_nat A (length (node_children t)));
            childAngle = js_add A angle (js_mul A (js_nat A k) angleStep);
            child = node_children t ! k
        in node_x child = Some (js_add A (or_zero A (node_x t)) (js_mul A (js_cos A childAngle) distance)) \<and>
           node_y child = Some (js_add A (or_zero A (node_y t)) (js_mul A (js_sin A childAngle) distance)) \<and>
           radial A child childAngle (js_mul A distance (js_lit08 A)))"
  by (cases t) (auto simp: in_set_enumerate_eq Let_def)

lemma radial_layoutChildren:
  "radial A (layoutChildren A node angle distance) angle distance"
proof (induction A node angle distance rule: layoutChildren.induct)
  case (1 A node angle distance)
  show ?case
  proof (cases "node_children node = []")
    case True
    then have "layoutChildren A node angle distance = node"
      by (subst layoutChildren.simps) simp
    with True show ?thesis by (subst radial_sel) simp
  next
    case False
    let ?n = "length (node_children node)"
    let ?step = "js_div A (js_mul A (js_pi A) (js_nat A 2)) (js_nat A ?n)"
    let ?th = "\<lambda>k. js_add A angle (js_mul A (js_nat A k) ?step)"
    let ?c = "\<lambda>k. set_xy (js_add A (or_zero A (node_x node)) (js_mul A (js_cos A (?th k)) distance))
                          (js_add A (or_zero A (node_y node)) (js_mul A (js_sin A (?th k)) distance))
                          (node_children node ! k)"
    let ?L = "layoutChildren A node angle distance"
    have len: "length (node_children ?L) = ?n"
      by (simp only: node_children_layoutChildren length_map length_enumerate)
    have nth: "node_children ?L ! k = layoutChildren A (?c k) (?th k) (js_mul A distance (js_lit08 A))"
      if "k < ?n" for k
      using that by (simp only: node_children_layoutChildren) (simp add: nth_enumerate_eq Let_def)
    have rec: "radial A (layoutChildren A (?c k) (?th k) (js_mul A distance (js_lit08 A)))
                 (?th k) (js_mul A distance (js_lit08 A))" if "k < ?n" for k
    proof -
      from that have mem: "(k, node_children node ! k) \<in> set (enumerate 0 (node_children node))"
        by (simp add: in_set_enumerate_eq)
      show ?thesis by (rule "1.IH" [OF False refl refl refl mem refl refl refl])
    qed
    show ?thesis
    proof (subst radial_sel, intro allI impI)
      fix k assume "k < length (node_children ?L)"
      with len have k: "k < ?n" by simp
      show "let angleStep = js_div A (js_mul A (js_pi A) (js_nat A 2)) (js_nat A (length (node_children ?L)));
                childAngle = js_add A angle (js_mul A (js_nat A k) angleStep);
                child = node_children ?L ! k
            in node_x child = Some (js_add A (or_zero A (node_x ?L)) (js_mul A (js_cos A childAngle) distance)) \<and>
               node_y child = Some (js_add A (or_zero A (node_y ?L)) (js_mul A (js_sin A childAngle) distance)) \<and>
               radial A child childAngle (js_mul A distance (js_lit08 A))"
        unfolding Let_def len nth [OF k] node_x_layoutChildren node_y_layoutChildren
        using rec [OF k] by (simp only: node_x_set_xy node_y_set_xy simp_thms)
    qed
  qed
qed

lemma cos_3pi2: "cos (3 * pi / 2) = 0"
  using cos_3over2_pi by (simp add: algebra_simps)

lemma sin_3pi2: "sin (3 * pi / 2) = - 1"
  using sin_3over2_pi by (simp add: algebra_simps)

lemma star_layout:
  "rootNode (layoutMindMap real_arith (Some \<lparr>clientWidth = 800, clientHeight = 600\<rparr>) star_page) =
     Node ''root'' ''Central Idea''
       [Node ''node-1'' ''East'' [] (Some 600) (Some 300) None,
        Node ''node-2'' ''South'' [Node ''node-5'' ''Leaf'' [] (Some 400) (Some 660) None]
          (Some 400) (Some 500) None,
        Node ''node-3'' ''West'' [] (Some 200) (Some 300) None,
        Node ''node-4'' ''North'' [] (Some 400) (Some 100) None]
       (Some 400) (Some 300) (Some ''#9b87f5'')"
  by (simp add: layoutMindMap_def star_page_def star_tree_def real_arith_def Let_def
      layoutChildren.simps or_zero_def cos_3pi2 sin_3pi2)

subsection \<open>Reading back what was serialised\<close>

lemma jrun_Nil [simp]: "jrun cf [] = cf"
  by (simp add: jrun_def)

lemma jrun_Cons [simp]: "jrun cf (c # cs) = jrun (jstep cf c) cs"
  by (simp add: jrun_def)

lemma jrun_append [simp]: "jrun cf (a @ b) = jrun (jrun cf a) b"
  by (simp add: jrun_def)

lemma fst_jrun: "fst (jrun cf cs) = foldl json_step (fst cf) cs"
  by (induction cs arbitrary: cf) (simp_all add: jstep_def)

lemma jstep_ws: "skips s \<Longrightarrow> is_ws c \<Longrightarrow> jstep ((s, st), d) c = ((s, st), d)"
  by (auto simp: skips_def jstep_def after_value_def after_data_def is_ws_def)

lemma jrun_ws:
  "skips s \<Longrightarrow> \<forall>c \<in> set w. is_ws c \<Longrightarrow> jrun ((s, st), d) w = ((s, st), d)"
  by (induction w) (simp_all add: jstep_ws)

lemma ws_nl: "\<forall>c \<in> set (nl gap ind). is_ws c"
  by (simp add: nl_def is_ws_def)

lemma ws_sp: "\<forall>c \<in> set (sp gap). is_ws c"
  by (simp add: sp_def is_ws_def)

lemma delim_not_digit: "is_delim c \<Longrightarrow> \<not> is_digit c"
  by (auto simp: is_delim_def is_ws_def is_digit_def)

lemma jstep_settle: "is_delim c \<Longrightarrow> jstep (settle cf) c = jstep cf c"
proof -
  assume c: "is_delim c"
  obtain s st d where cf: "cf = ((s, st), d)" by (metis prod.collapse)
  from c have nd: "\<not> is_digit c" by (rule delim_not_digit)
  from c have ne: "c \<noteq> CHR ''.''" "c \<noteq> CHR ''e''" "c \<noteq> CHR ''E''"
    by (auto simp: is_delim_def is_ws_def)
  show ?thesis
    unfolding cf settle_def
    using nd ne by (auto simp: num_done_def jstep_def end_number_def)
qed

lemma settle_idem: "\<not> num_done s \<Longrightarrow> settle ((s, st), d) = ((s, st), d)"
  by (simp add: settle_def)

lemma jrun_ws_delim:
  assumes "settle cf = ((AfterValue, st), d)" "\<forall>c \<in> set w. is_ws c" "is_delim c"
  shows "jrun cf (w @ [c]) = jstep ((AfterValue, st), d) c"
proof (cases w)
  case Nil
  with assms show ?thesis using jstep_settle [of c cf] by simp
next
  case (Cons a w')
  with assms have a: "is_ws a" and w': "\<forall>c \<in> set w'. is_ws c" by simp_all
  then have "is_delim a" by (simp add: is_delim_def)
  then have "jstep cf a = jstep ((AfterValue, st), d) a"
    using jstep_settle [of a cf] assms(1) by simp
  also have "\<dots> = ((AfterValue, st), d)"
    using a by (simp add: jstep_ws skips_def)
  finally show ?thesis
    using Cons w' by (simp add: jrun_ws skips_def)
qed

lemma hex_digit_table:
  "\<forall>n \<in> set [0..<16]. is_hex (hex_digit n) \<and> hex_val (hex_digit n) = n"
  by (simp add: upt_rec hex_digit_def is_hex_def hex_val_def is_digit_def)

lemma hex_digit_props:
  "n < 16 \<Longrightarrow> is_hex (hex_digit n) \<and> hex_val (hex_digit n) = n"
  using hex_digit_table by (simp del: upt_Suc)

lemma jrun_escape_char:
  assumes "hex d = 0"
  shows "jrun ((InString k, st), d) (escape_char c) = ((InString k, st), push_char c d)"
proof -
  let ?n = "of_char c :: nat"
  consider (quote) "c = CHR 0x22" | (bsl) "c = CHR 0x5C"
    | (named) "c \<in> {CHR 0x08, CHR 0x0C, CHR 0x0A, CHR 0x0D, CHR 0x09}"
    | (ctl) "c \<noteq> CHR 0x22" "c \<noteq> CHR 0x5C"
            "c \<notin> {CHR 0x08, CHR 0x0C, CHR 0x0A, CHR 0x0D, CHR 0x09}" "?n < 32"
    | (plain) "c \<noteq> CHR 0x22" "c \<noteq> CHR 0x5C" "\<not> ?n < 32"
    by (cases "?n < 32") auto
  then show ?thesis
  proof cases
    case quote
    then show ?thesis by (simp add: escape_char_def jstep_def unescape_def)
  next
    case bsl
    then show ?thesis by (simp add: escape_char_def jstep_def unescape_def)
  next
    case named
    then show ?thesis by (auto simp: escape_char_def jstep_def unescape_def)
  next
    case ctl
    have hi: "?n div 16 < 16" and lo: "?n mod 16 < 16" using ctl(4) by simp_all
    have val: "(0 * 16 + hex_val (hex_digit (?n div 16))) * 16 + hex_val (hex_digit (?n mod 16)) = ?n"
      using hex_digit_props [OF hi] hex_digit_props [OF lo] by simp
    have zero: "is_hex CHR ''0''" "hex_val CHR ''0'' = 0"
      by (simp_all add: is_hex_def hex_val_def is_digit_def)
    from ctl have esc: "escape_char c = [CHR 0x5C, CHR ''u'', CHR ''0'', CHR ''0'',
        hex_digit (?n div 16), hex_digit (?n mod 16)]"
      by (simp add: escape_char_def)
    show ?thesis
      unfolding esc
      using hex_digit_props [OF hi] hex_digit_props [OF lo] zero assms
      by (simp add: jstep_def push_char_def)
  next
    case plain
    then have "escape_char c = [c]"
      by (auto simp: escape_char_def)
    with plain show ?thesis by (simp add: jstep_def)
  qed
qed

lemma hex_push_char [simp]: "hex (push_char c d) = hex d"
  by (simp add: push_char_def)

lemma jrun_escaped:
  "hex d = 0 \<Longrightarrow>
   jrun ((InString k, st), d) (concat (map escape_char s)) = ((InString k, st), d\<lparr>buf := buf d @ s\<rparr>)"
proof (induction s arbitrary: d)
  case Nil
  then show ?case by simp
next
  case (Cons c s)
  then show ?case
    by (simp add: jrun_escape_char) (simp add: push_char_def)
qed

lemma jrun_string:
  assumes "starts s0"
  shows "jrun ((s0, st), d) (json_quote s) = ((AfterValue, st), attach (JString s) d)"
proof -
  have "jstep ((s0, st), d) (CHR 0x22) = ((InString False, st), d\<lparr>buf := [], hex := 0\<rparr>)"
    using assms by (auto simp: starts_def jstep_def is_ws_def begin_value_def begin_data_def)
  then show ?thesis
    by (simp add: json_quote_def jrun_escaped jstep_def attach_def split: list.splits frame.splits)
qed

lemma jrun_key:
  assumes "key_pos s0" "frames d = FObject ms k0 # fs"
  shows "jrun ((s0, st), d) (json_quote k) =
         ((ExpectColon, st), d\<lparr>frames := FObject ms k # fs, buf := [], hex := 0\<rparr>)"
proof -
  have "jstep ((s0, st), d) (CHR 0x22) = ((InString True, st), d\<lparr>buf := [], hex := 0\<rparr>)"
    using assms by (auto simp: key_pos_def jstep_def is_ws_def)
  then show ?thesis
    using assms(2) by (simp add: json_quote_def jrun_escaped jstep_def set_key_def)
qed

lemma num_step_Reject: "foldl num_step Reject t = Reject"
  by (induction t) simp_all

lemma num_step_not_ExpectValue: "num_step s c \<noteq> ExpectValue"
  by (cases s) simp_all

lemma digit_not_ws: "is_digit c \<Longrightarrow> \<not> is_ws c"
  by (auto simp: is_digit_def is_ws_def)

lemma jstep_num:
  assumes "num_step s c \<noteq> Reject" "s \<noteq> ExpectValue"
  shows "jstep ((s, st), d) c = ((num_step s c, st), push_char c d)"
  using assms by (cases s) (auto simp: jstep_def split: if_splits)

lemma jstep_num_first:
  assumes "num_step ExpectValue c \<noteq> Reject" "starts s0"
  shows "jstep ((s0, st), d) c = ((num_step ExpectValue c, st), d\<lparr>buf := [c]\<rparr>)"
proof -
  from assms(1) have c: "c = CHR ''-'' \<or> is_digit c"
    by (auto split: if_splits simp: is_digit_def)
  then have "\<not> is_ws c" "c \<noteq> CHR '']''" "c \<noteq> CHR ''{''" "c \<noteq> CHR ''[''" "c \<noteq> CHR 0x22"
    by (auto simp: is_digit_def is_ws_def)
  with assms show ?thesis
    by (auto simp: starts_def jstep_def begin_value_def begin_data_def split: if_splits)
qed

lemma jrun_num_rest:
  "s \<noteq> ExpectValue \<Longrightarrow> foldl num_step s t \<noteq> Reject \<Longrightarrow>
   jrun ((s, st), d) t = ((foldl num_step s t, st), d\<lparr>buf := buf d @ t\<rparr>)"
proof (induction t arbitrary: s d)
  case Nil
  then show ?case by simp
next
  case (Cons c t)
  from Cons.prems(2) have nr: "num_step s c \<noteq> Reject"
    using num_step_Reject by (cases "num_step s c = Reject") auto
  from Cons.prems(2) have "foldl num_step (num_step s c) t \<noteq> Reject" by simp
  from Cons.IH [OF num_step_not_ExpectValue this]
  show ?case
    using jstep_num [OF nr Cons.prems(1)] by (simp add: push_char_def)
qed

lemma jrun_number:
  assumes "is_json_number t" "starts s0"
  shows "\<exists>s. num_done s \<and> jrun ((s0, st), d) t = ((s, st), d\<lparr>buf := t\<rparr>)"
proof (cases t)
  case Nil
  with assms(1) show ?thesis by (simp add: is_json_number_def num_done_def)
next
  case (Cons c t')
  let ?s = "foldl num_step ExpectValue t"
  from assms(1) have fin: "num_done ?s" by (simp add: is_json_number_def)
  then have nr: "?s \<noteq> Reject" by (auto simp: num_done_def)
  with Cons have nr1: "num_step ExpectValue c \<noteq> Reject"
    using num_step_Reject by (cases "num_step ExpectValue c = Reject") auto
  from nr Cons have "foldl num_step (num_step ExpectValue c) t' \<noteq> Reject" by simp
  from jrun_num_rest [OF num_step_not_ExpectValue this]
  have "jrun ((s0, st), d) t = ((?s, st), d\<lparr>buf := t\<rparr>)"
    using jstep_num_first [OF nr1 assms(2)] Cons by simp
  with fin show ?thesis by blast
qed

lemma attach_buf [simp]: "attach v (d\<lparr>buf := b\<rparr>) = attach v d"
  by (simp add: attach_def split: list.splits frame.splits)

lemma settle_number:
  assumes "is_json_number t" "starts s0"
  shows "settle (jrun ((s0, st), d) t) = ((AfterValue, st), attach (JNumber t) d)"
proof -
  from jrun_number [OF assms] obtain s where
    "num_done s" "jrun ((s0, st), d) t = ((s, st), d\<lparr>buf := t\<rparr>)" by blast
  then show ?thesis by (simp add: settle_def)
qed

lemma settle_literal:
  assumes "starts s0" "t \<in> {''null'', ''true'', ''false''}"
  shows "settle (jrun ((s0, st), d) t) = ((AfterValue, st), attach (literal_value [hd t]) d)"
  using assms
  by (auto simp: starts_def jstep_def is_ws_def begin_value_def begin_data_def is_digit_def
      settle_def num_done_def)

lemma comma_delim: "is_delim CHR '',''" and rbracket_delim: "is_delim CHR '']''"
  and rbrace_delim: "is_delim CHR ''}''"
  by (simp_all add: is_delim_def)

lemma jstep_comma_array:
  "jstep ((AfterValue, InArray # st), d) CHR '','' = ((ExpectValue, InArray # st), d)"
  by (simp add: jstep_def after_value_def after_data_def is_ws_def)

lemma jstep_comma_object:
  "jstep ((AfterValue, InObject # st), d) CHR '','' = ((ExpectKey, InObject # st), d)"
  by (simp add: jstep_def after_value_def after_data_def is_ws_def)

lemma jstep_close_array:
  "jstep ((AfterValue, InArray # st), d) CHR '']'' = ((AfterValue, st), close_frame d)"
  by (simp add: jstep_def after_value_def after_data_def is_ws_def)

lemma jstep_close_object:
  "jstep ((AfterValue, InObject # st), d) CHR ''}'' = ((AfterValue, st), close_frame d)"
  by (simp add: jstep_def after_value_def after_data_def is_ws_def)

lemma jstep_colon:
  "jstep ((ExpectColon, st), d) CHR '':'' = ((ExpectValue, st), d)"
  by (simp add: jstep_def is_ws_def)

lemma jstep_open_array:
  "starts s0 \<Longrightarrow>
   jstep ((s0, st), d) CHR ''['' = ((ArrayStart, InArray # st), d\<lparr>frames := FArray [] # frames d\<rparr>)"
  by (auto simp: starts_def jstep_def is_ws_def begin_value_def begin_data_def)

lemma jstep_open_object:
  "starts s0 \<Longrightarrow>
   jstep ((s0, st), d) CHR ''{'' = ((ObjectStart, InObject # st), d\<lparr>frames := FObject [] [] # frames d\<rparr>)"
  by (auto simp: starts_def jstep_def is_ws_def begin_value_def begin_data_def)

lemma jstep_empty_array:
  "starts s0 \<Longrightarrow> jrun ((s0, st), d) ''[]'' = ((AfterValue, st), attach (JArray []) d)"
  by (simp add: jstep_open_array) (simp add: jstep_def is_ws_def close_frame_def)

lemma jstep_empty_object:
  "starts s0 \<Longrightarrow> jrun ((s0, st), d) ''{}'' = ((AfterValue, st), attach (JObject []) d)"
  by (simp add: jstep_open_object) (simp add: jstep_def is_ws_def close_frame_def)

lemma attach_array:
  "frames d = FArray xs # fs \<Longrightarrow>
   attach v d = d\<lparr>frames := FArray (xs @ [v]) # fs, buf := [], hex := 0\<rparr>"
  by (simp add: attach_def)

lemma attach_object:
  "frames d = FObject ms k # fs \<Longrightarrow>
   attach v d = d\<lparr>frames := FObject (ms @ [(k, v)]) k # fs, buf := [], hex := 0\<rparr>"
  by (simp add: attach_def)

lemma jrun_elements:
  assumes IH: "\<And>v s0 st d. v \<in> set vs \<Longrightarrow> starts s0 \<Longrightarrow>
      settle (jrun ((s0, st), d) (P v)) = ((AfterValue, st), attach v d)"
    and ws: "\<forall>c \<in> set w. is_ws c"
  shows "vs \<noteq> [] \<Longrightarrow> starts s0 \<Longrightarrow> frames d = FArray xs # fs \<Longrightarrow>
     settle (jrun ((s0, InArray # st), d) (join_with (CHR '','' # w) (map P vs))) =
       ((AfterValue, InArray # st), d\<lparr>frames := FArray (xs @ vs) # fs, buf := [], hex := 0\<rparr>)"
  using IH
proof (induction vs arbitrary: s0 d xs)
  case Nil
  then show ?case by simp
next
  case (Cons v vs)
  have first: "settle (jrun ((s0, InArray # st), d) (P v)) = ((AfterValue, InArray # st), attach v d)"
    using Cons.prems(2) by (intro Cons.prems(4)) simp_all
  show ?case
  proof (cases vs)
    case Nil
    with first Cons.prems(3) show ?thesis by (simp add: attach_array)
  next
    case (Cons v' vs')
    let ?c1 = "jrun ((s0, InArray # st), d) (P v)"
    let ?d1 = "attach v d"
    have fr: "frames ?d1 = FArray (xs @ [v]) # fs"
      using Cons.prems(3) by (simp add: attach_array)
    have "jrun ?c1 (CHR '','' # w) = jrun (jstep (settle ?c1) CHR '','') w"
      by (simp add: jstep_settle comma_delim)
    also have "\<dots> = ((ExpectValue, InArray # st), ?d1)"
      using ws by (simp add: first jstep_comma_array jrun_ws skips_def)
    finally have mid: "jrun ?c1 (CHR '','' # w) = ((ExpectValue, InArray # st), ?d1)" .
    have "settle (jrun ((ExpectValue, InArray # st), ?d1) (join_with (CHR '','' # w) (map P vs))) =
        ((AfterValue, InArray # st), ?d1\<lparr>frames := FArray ((xs @ [v]) @ vs) # fs, buf := [], hex := 0\<rparr>)"
      using Cons by (intro Cons.IH [OF _ _ fr]) (simp_all add: starts_def Cons.prems(4))
    moreover have "join_with (CHR '','' # w) (map P (v # vs)) =
        P v @ (CHR '','' # w) @ join_with (CHR '','' # w) (map P vs)"
      using Cons by simp
    then have "jrun ((s0, InArray # st), d) (join_with (CHR '','' # w) (map P (v # vs))) =
        jrun ((ExpectValue, InArray # st), ?d1) (join_with (CHR '','' # w) (map P vs))"
      by (simp only: jrun_append mid)
    ultimately show ?thesis
      using Cons.prems(3) by (simp add: attach_array del: jrun_Cons)
  qed
qed

lemma jrun_join_step: "jrun cf (a @ sep @ r) = jrun (jrun (jrun cf a) sep) r"
  by simp

lemma jrun_member:
  assumes key: "key_pos s0" and fr: "frames d = FObject xs k0 # fs"
    and ws: "\<forall>c \<in> set u. is_ws c"
    and IH: "\<And>s0 st d. starts s0 \<Longrightarrow>
      settle (jrun ((s0, st), d) (P v)) = ((AfterValue, st), attach v d)"
  shows "settle (jrun ((s0, InObject # st), d) (json_quote k @ CHR '':'' # u @ P v)) =
         ((AfterValue, InObject # st),
          d\<lparr>frames := FObject (xs @ [(k, v)]) k # fs, buf := [], hex := 0\<rparr>)"
proof -
  let ?dk = "d\<lparr>frames := FObject xs k # fs, buf := [], hex := 0\<rparr>"
  have "jrun ((s0, InObject # st), d) (json_quote k @ CHR '':'' # u @ P v) =
        jrun (jrun (jstep (jrun ((s0, InObject # st), d) (json_quote k)) CHR '':'') u) (P v)"
    by simp
  also have "\<dots> = jrun ((ExpectValue, InObject # st), ?dk) (P v)"
    using ws by (simp add: jrun_key [OF key fr] jstep_colon jrun_ws skips_def)
  finally show ?thesis
    by (simp add: IH starts_def attach_object)
qed

lemma jrun_members:
  assumes IH: "\<And>m s0 st d. m \<in> set ms \<Longrightarrow> starts s0 \<Longrightarrow>
      settle (jrun ((s0, st), d) (P (snd m))) = ((AfterValue, st), attach (snd m) d)"
    and ws: "\<forall>c \<in> set w. is_ws c" and wu: "\<forall>c \<in> set u. is_ws c"
  shows "ms \<noteq> [] \<Longrightarrow> key_pos s0 \<Longrightarrow> frames d = FObject xs k0 # fs \<Longrightarrow>
     \<exists>k'. settle (jrun ((s0, InObject # st), d)
              (join_with (CHR '','' # w)
                 (map (\<lambda>m. json_quote (fst m) @ CHR '':'' # u @ P (snd m)) ms))) =
       ((AfterValue, InObject # st),
        d\<lparr>frames := FObject (xs @ ms) k' # fs, buf := [], hex := 0\<rparr>)"
  using IH
proof (induction ms arbitrary: s0 d xs k0)
  case Nil
  then show ?case by simp
next
  case (Cons m ms)
  let ?M = "\<lambda>m. json_quote (fst m) @ CHR '':'' # u @ P (snd m)"
  let ?d1 = "d\<lparr>frames := FObject (xs @ [m]) (fst m) # fs, buf := [], hex := 0\<rparr>"
  have first: "settle (jrun ((s0, InObject # st), d) (?M m)) = ((AfterValue, InObject # st), ?d1)"
    using jrun_member [OF Cons.prems(2,3) wu, of P "snd m" st "fst m"] Cons.prems(4) [of m]
    by simp
  show ?case
  proof (cases ms)
    case Nil
    with first show ?thesis by auto
  next
    case (Cons m' ms')
    let ?c1 = "jrun ((s0, InObject # st), d) (?M m)"
    have fr: "frames ?d1 = FObject (xs @ [m]) (fst m) # fs" by simp
    have "jrun ?c1 (CHR '','' # w) = jrun (jstep (settle ?c1) CHR '','') w"
      by (simp add: jstep_settle comma_delim)
    also have "\<dots> = ((ExpectKey, InObject # st), ?d1)"
      using ws by (simp add: first jstep_comma_object jrun_ws skips_def del: jrun_append jrun_Cons)
    finally have mid: "jrun ?c1 (CHR '','' # w) = ((ExpectKey, InObject # st), ?d1)" .
    have "\<exists>k'. settle (jrun ((ExpectKey, InObject # st), ?d1) (join_with (CHR '','' # w) (map ?M ms))) =
        ((AfterValue, InObject # st), ?d1\<lparr>frames := FObject ((xs @ [m]) @ ms) k' # fs, buf := [], hex := 0\<rparr>)"
      using Cons by (intro Cons.IH [OF _ _ fr]) (simp_all add: key_pos_def Cons.prems(4))
    moreover have "join_with (CHR '','' # w) (map ?M (m # ms)) =
        ?M m @ (CHR '','' # w) @ join_with (CHR '','' # w) (map ?M ms)"
      using Cons by simp
    then have "jrun ((s0, InObject # st), d) (join_with (CHR '','' # w) (map ?M (m # ms))) =
        jrun (jrun ?c1 (CHR '','' # w)) (join_with (CHR '','' # w) (map ?M ms))"
      by (simp only: jrun_join_step)
    then have "jrun ((s0, InObject # st), d) (join_with (CHR '','' # w) (map ?M (m # ms))) =
        jrun ((ExpectKey, InObject # st), ?d1) (join_with (CHR '','' # w) (map ?M ms))"
      by (simp only: mid)
    ultimately show ?thesis
      by (simp del: jrun_Cons)
  qed
qed

lemma settle_after [simp]: "settle ((AfterValue, st), d) = ((AfterValue, st), d)"
  by (simp add: settle_def num_done_def)

lemma close_array:
  "close_frame (d\<lparr>frames := FArray vs # frames d, buf := b, hex := h\<rparr>) = attach (JArray vs) d"
  by (simp add: close_frame_def attach_def split: list.splits frame.splits)

lemma close_object:
  "close_frame (d\<lparr>frames := FObject ms k # frames d, buf := b, hex := h\<rparr>) = attach (JObject ms) d"
  by (simp add: close_frame_def attach_def split: list.splits frame.splits)

lemma jrun_nl: "skips s \<Longrightarrow> jrun ((s, st), d) (nl gap ind) = ((s, st), d)"
  by (rule jrun_ws [OF _ ws_nl])

lemma skips_ArrayStart: "skips ArrayStart" and skips_ObjectStart: "skips ObjectStart"
  by (simp_all add: skips_def)

lemma settle_value:
  "json_ok v \<Longrightarrow> starts s0 \<Longrightarrow>
   settle (jrun ((s0, st), d) (JSON_text gap ind v)) = ((AfterValue, st), attach v d)"
proof (induction v arbitrary: s0 st d ind)
  case JNull
  then show ?case using settle_literal [of s0 "''null''" st d] by (simp add: literal_value_def)
next
  case (JBool b)
  then show ?case
    using settle_literal [of s0 "''true''" st d] settle_literal [of s0 "''false''" st d]
    by (simp add: literal_value_def)
next
  case (JNumber t)
  then show ?case by (simp add: settle_number)
next
  case (JString s)
  then show ?case by (simp add: jrun_string)
next
  case (JArray vs)
  show ?case
  proof (cases "vs = []")
    case True
    with JArray.prems show ?thesis by (simp add: jstep_empty_array del: jrun_Cons)
  next
    case False
    let ?w1 = "nl gap (ind + gap)" and ?w0 = "nl gap ind"
    let ?body = "join_with (CHR '','' # ?w1) (map (JSON_text gap (ind + gap)) vs)"
    let ?d1 = "d\<lparr>frames := FArray [] # frames d\<rparr>"
    let ?cE = "jrun ((ArrayStart, InArray # st), ?d1) ?body"
    have IH: "settle (jrun ((s0, st), d) (JSON_text gap (ind + gap) v)) = ((AfterValue, st), attach v d)"
      if "v \<in> set vs" "starts s0" for v s0 st d
      using JArray.IH [OF that(1) _ that(2)] JArray.prems(1) that(1) by (simp add: list_all_iff)
    have E: "settle ?cE =
       ((AfterValue, InArray # st), ?d1\<lparr>frames := FArray ([] @ vs) # frames d, buf := [], hex := 0\<rparr>)"
      by (rule jrun_elements [OF IH ws_nl False]) (simp_all add: starts_def)
    have shape: "JSON_text gap ind (JArray vs) = CHR ''['' # (?w1 @ ?body @ (?w0 @ [CHR '']'']))"
      using False by simp
    have "jrun ((s0, st), d) (JSON_text gap ind (JArray vs)) =
          jrun (jrun (jrun (jstep ((s0, st), d) CHR ''['') ?w1) ?body) (?w0 @ [CHR '']''])"
      unfolding shape by (simp only: jrun_Cons jrun_append)
    also have "\<dots> = jrun ?cE (?w0 @ [CHR '']''])"
      by (simp only: jstep_open_array [OF JArray.prems(2)] jrun_nl [OF skips_ArrayStart])
    also have "\<dots> = jstep ((AfterValue, InArray # st),
         ?d1\<lparr>frames := FArray ([] @ vs) # frames d, buf := [], hex := 0\<rparr>) CHR '']''"
      by (rule jrun_ws_delim [OF E ws_nl rbracket_delim])
    also have "\<dots> = ((AfterValue, st), attach (JArray vs) d)"
      by (simp add: jstep_close_array close_array)
    finally show ?thesis by simp
  qed
next
  case (JObject ms)
  show ?case
  proof (cases "ms = []")
    case True
    with JObject.prems show ?thesis by (simp add: jstep_empty_object del: jrun_Cons)
  next
    case False
    let ?w1 = "nl gap (ind + gap)" and ?w0 = "nl gap ind"
    let ?M = "\<lambda>m. json_quote (fst m) @ CHR '':'' # sp gap @ JSON_text gap (ind + gap) (snd m)"
    let ?body = "join_with (CHR '','' # ?w1) (map ?M ms)"
    let ?d1 = "d\<lparr>frames := FObject [] [] # frames d\<rparr>"
    let ?cE = "jrun ((ObjectStart, InObject # st), ?d1) ?body"
    have IH: "settle (jrun ((s0, st), d) (JSON_text gap (ind + gap) (snd m))) =
        ((AfterValue, st), attach (snd m) d)"
      if "m \<in> set ms" "starts s0" for m s0 st d
    proof -
      have "snd m \<in> Basic_BNFs.snds m" by (cases m) simp
      moreover from JObject.prems(1) that(1) have "json_ok (snd m)" by (simp add: list_all_iff)
      ultimately show ?thesis using JObject.IH [OF that(1) _ _ that(2)] by blast
    qed
    have "\<exists>k'. settle ?cE =
       ((AfterValue, InObject # st), ?d1\<lparr>frames := FObject ([] @ ms) k' # frames d, buf := [], hex := 0\<rparr>)"
      by (rule jrun_members [OF IH ws_nl ws_sp False]) (simp_all add: key_pos_def)
    then obtain k' where E: "settle ?cE =
       ((AfterValue, InObject # st), ?d1\<lparr>frames := FObject ([] @ ms) k' # frames d, buf := [], hex := 0\<rparr>)"
      by blast
    have shape: "JSON_text gap ind (JObject ms) = CHR ''{'' # (?w1 @ ?body @ (?w0 @ [CHR ''}'']))"
      using False by simp
    have "jrun ((s0, st), d) (JSON_text gap ind (JObject ms)) =
          jrun (jrun (jrun (jstep ((s0, st), d) CHR ''{'') ?w1) ?body) (?w0 @ [CHR ''}''])"
      unfolding shape by (simp only: jrun_Cons jrun_append)
    also have "\<dots> = jrun ?cE (?w0 @ [CHR ''}''])"
      by (simp only: jstep_open_object [OF JObject.prems(2)] jrun_nl [OF skips_ObjectStart])
    also have "\<dots> = jstep ((AfterValue, InObject # st),
         ?d1\<lparr>frames := FObject ([] @ ms) k' # frames d, buf := [], hex := 0\<rparr>) CHR ''}''"
      by (rule jrun_ws_delim [OF E ws_nl rbrace_delim])
    also have "\<dots> = ((AfterValue, st), attach (JObject ms) d)"
      by (simp add: jstep_close_object close_object)
    finally show ?thesis by simp
  qed
qed

lemma parse_stringify:
  assumes "json_ok v"
  shows "json_valid (JSON_stringify gap v)" and "json_value (JSON_stringify gap v) = Some v"
proof -
  let ?cf = "jrun ((ExpectValue, []), empty_data) (JSON_stringify gap v)"
  have s: "settle ?cf = ((AfterValue, []), attach v empty_data)"
    unfolding JSON_stringify_def by (rule settle_value [OF assms]) (simp add: starts_def)
  then show "json_value (JSON_stringify gap v) = Some v"
    by (simp add: json_value_def attach_def empty_data_def)
  have "fst ?cf = foldl json_step (ExpectValue, []) (JSON_stringify gap v)"
    by (simp add: fst_jrun)
  moreover from s have "json_accepting (fst ?cf)"
    by (cases ?cf) (auto simp: settle_def json_accepting_def num_done_def split: if_splits)
  ultimately show "json_valid (JSON_stringify gap v)"
    by (simp add: json_valid_def)
qed

lemma erase_pos_reread: "erase_pos (reread read_num num_text t) = erase_pos t"
  by (induction t) simp_all

lemma those_map_Some: "(\<And>x. x \<in> set xs \<Longrightarrow> f x = Some (g x)) \<Longrightarrow> those (map f xs) = Some (map g xs)"
  by (induction xs) simp_all

lemma json_node_node_json:
  "json_node read_num (node_json pos_first num_text t) = Some (reread read_num num_text t)"
proof (induction t)
  case (Node i c ch px py col)
  have "those (map (json_node read_num) (map (node_json pos_first num_text) ch)) =
        Some (map (reread read_num num_text) ch)"
    unfolding map_map by (rule those_map_Some) (simp add: Node.IH)
  then show ?case
    by (simp add: Let_def lookup_member_def number_member_def number_field_def string_field_def
        split: option.splits)
qed

lemma json_ok_node_json:
  assumes "\<And>r t. num_text r = Some t \<Longrightarrow> is_json_number t"
  shows "json_ok (node_json pos_first num_text t)"
proof (induction t)
  case (Node i c ch px py col)
  then have "list_all json_ok (map (node_json pos_first num_text) ch)"
    by (simp add: list_all_iff)
  then show ?case
    using assms
    by (auto simp: Let_def number_member_def split: option.splits)
qed

lemma digit_char_table:
  "\<forall>n \<in> set [0..<10]. is_digit (digit_char n) \<and> (digit_char n = CHR ''0'' \<longleftrightarrow> n = 0)"
  by code_simp

lemma digit_char_props:
  "n < 10 \<Longrightarrow> is_digit (digit_char n) \<and> (digit_char n = CHR ''0'' \<longleftrightarrow> n = 0)"
  using digit_char_table by (simp del: upt_Suc)

lemma not_digit_minus: "\<not> is_digit CHR ''-''"
  by (simp add: is_digit_def)

lemma string_of_nat_small: "n < 10 \<Longrightarrow> string_of_nat n = [digit_char n]"
  by (subst string_of_nat.simps) (simp del: string_of_nat.simps)

lemma string_of_nat_large:
  "\<not> n < 10 \<Longrightarrow> string_of_nat n = string_of_nat (n div 10) @ [digit_char (n mod 10)]"
  by (subst string_of_nat.simps) (simp del: string_of_nat.simps)

lemma num_step_string_of_nat:
  "s = ExpectValue \<or> s = NumMinus \<Longrightarrow>
   foldl num_step s (string_of_nat n) = (if n = 0 then NumZero else NumInt)"
proof (induction n rule: string_of_nat.induct)
  case (1 n)
  show ?case
  proof (cases "n < 10")
    case True
    from digit_char_props [OF True] not_digit_minus
    have "digit_char n \<noteq> CHR ''-''" by auto
    with digit_char_props [OF True] "1.prems" show ?thesis
      unfolding string_of_nat_small [OF True]
      by (auto simp del: string_of_nat.simps)
  next
    case False
    then have "n div 10 \<noteq> 0" by simp
    with "1.IH" [OF False "1.prems"] have "foldl num_step s (string_of_nat (n div 10)) = NumInt"
      by (simp del: string_of_nat.simps)
    moreover have "is_digit (digit_char (n mod 10))"
      using digit_char_props [of "n mod 10"] by simp
    ultimately show ?thesis
      using False unfolding string_of_nat_large [OF False]
      by (simp del: string_of_nat.simps)
  qed
qed

lemma is_json_number_int_text: "is_json_number (int_text i)"
  by (simp add: is_json_number_def int_text_def num_step_string_of_nat num_done_def
      del: string_of_nat.simps)

lemma is_json_number_whole_text: "whole_text r = Some t \<Longrightarrow> is_json_number t"
  by (auto simp: whole_text_def is_json_number_int_text split: if_splits)

lemma digit_char_0: "digit_char 0 = CHR ''0''"
  by code_simp

lemma whole_text_0: "whole_text 0 = Some ''0''"
  by (simp add: whole_text_def int_text_def string_of_nat_small digit_char_0 del: string_of_nat.simps)

lemma default_root_text:
  \<open>JSON_stringify 0 (node_json root_first whole_text (default_root real_arith)) =
   ''{"id":"root","content":"Central Idea","children":[],"x":0,"y":0,"color":"#9b87f5"}''\<close>
  by (simp add: JSON_stringify_def default_root_def real_arith_def root_first_def Let_def
      number_member_def whole_text_0 json_quote_def escape_char_def nl_def sp_def)

section \<open>The claims\<close>

text \<open>
  Claim C1. On a map whose root carries the identifier \<^verbatim>\<open>"root"\<close>, as the data model
  fixes it, \<^verbatim>\<open>deleteNode(nodeId)\<close> with an identifier other than the root's leaves a
  tree in which no node reachable from the root has that identifier, and
  \<^verbatim>\<open>deleteNode\<close> with the root's identifier leaves the tree as it was.
\<close>

theorem deleteNode_removes_subtree:
  assumes "node_id (rootNode s) = ''root''"
  shows "(nodeId \<noteq> node_id (rootNode s) \<longrightarrow>
            nodeId \<notin> set (ids (rootNode (deleteNode nodeId s)))) \<and>
         (nodeId = node_id (rootNode s) \<longrightarrow> rootNode (deleteNode nodeId s) = rootNode s)"
proof (cases "nodeId = ''root''")
  case True
  with assms show ?thesis by (simp add: deleteNode_def)
next
  case False
  with assms have "node_id (rootNode s) \<noteq> nodeId" by simp
  then have "nodeId \<notin> set (ids (removeNodeFromTree nodeId (rootNode s)))"
    by (rule ids_removeNodeFromTree)
  with False assms show ?thesis by (simp add: deleteNode_def)
qed

theorem deleteNode_removes_subtree_witness:
  "node_id (rootNode example_page) = ''root'' \<and>
   ''node-1'' \<in> set (ids (rootNode example_page)) \<and>
   ''node-1'' \<notin> set (ids (rootNode (deleteNode ''node-1'' example_page))) \<and>
   rootNode (deleteNode ''root'' example_page) = rootNode example_page"
proof -
  have root: "node_id (rootNode example_page) = ''root''"
    by (simp add: example_page_def example_tree_def)
  have present: "''node-1'' \<in> set (ids (rootNode example_page))"
    by (simp add: example_page_def example_tree_def ids_Node)
  from deleteNode_removes_subtree [OF root, of "''node-1''"]
       deleteNode_removes_subtree [OF root, of "''root''"] root present
  show ?thesis by simp
qed

text \<open>
  Claim C2, as stated, lets the caller choose the content of the new node. The handler
  \<^verbatim>\<open>addChildNode(parentId)\<close> has no such argument: the node it builds always has the
  content \<^verbatim>\<open>"New Idea"\<close>, here on the initial map with the root as parent, where the
  claim at the content \<^verbatim>\<open>"x"\<close> asks for \<^verbatim>\<open>"x"\<close>.
\<close>

theorem addChildNode_content_counterexample:
  "''root'' \<in> set (ids (rootNode initial_page)) \<and>
   node_children (rootNode (addChildNode 7 1 ''root'' initial_page)) = [newNode 7 1] \<and>
   node_content (newNode 7 1 :: real MindMapNode) \<noteq> ''x''"
  by (simp add: initial_page_def default_root_def addChildNode_def ids_Node newNode_def)

text \<open>
  Claim C2, amended. When exactly one node of the tree carries \<open>parentId\<close>,
  \<^verbatim>\<open>addChildNode(parentId)\<close> returns a tree with exactly one node more; the node
  located by \<open>parentId\<close> keeps its fields and has the new node appended at the end of
  its children; and the new node has the fixed content \<^verbatim>\<open>"New Idea"\<close> and no children.
\<close>

theorem addChildNode_appends_New_Idea:
  fixes s :: "'n page"
  assumes "count_list (ids (rootNode s)) parentId = 1"
  shows "count_nodes (rootNode (addChildNode now pick parentId s)) = count_nodes (rootNode s) + 1 \<and>
         (\<exists>p. find_node parentId (rootNode s) = Some p \<and>
              find_node parentId (rootNode (addChildNode now pick parentId s)) =
                Some (set_children (node_children p @ [newNode now pick]) p)) \<and>
         node_content (newNode now pick :: 'n MindMapNode) = ''New Idea'' \<and>
         node_children (newNode now pick :: 'n MindMapNode) = []"
proof -
  from assms have "count_list (ids (rootNode s)) parentId \<le> 1" by simp
  then have "count_nodes (addChildToNode parentId (newNode now pick) (rootNode s)) =
      count_nodes (rootNode s) + count_list (ids (rootNode s)) parentId * count_nodes (newNode now pick :: 'n MindMapNode)"
    by (rule count_addChildToNode)
  with assms have cnt: "count_nodes (rootNode (addChildNode now pick parentId s)) = count_nodes (rootNode s) + 1"
    by (simp add: addChildNode_def count_nodes_newNode)
  from assms have "parentId \<in> set (ids (rootNode s))"
    by (metis count_list_0_iff zero_neq_one)
  then obtain p where p: "find_node parentId (rootNode s) = Some p"
    using find_node_present by blast
  then have "find_node parentId (rootNode (addChildNode now pick parentId s)) =
      Some (set_children (node_children p @ [newNode now pick]) p)"
    by (simp add: addChildNode_def find_node_addChildToNode)
  with p cnt show ?thesis by (simp add: newNode_def)
qed

theorem addChildNode_appends_New_Idea_witness:
  "count_list (ids (rootNode example_page)) ''node-1'' = 1 \<and>
   count_nodes (rootNode (addChildNode 7 1 ''node-1'' example_page)) =
     count_nodes (rootNode example_page) + 1"
proof -
  have one: "count_list (ids (rootNode example_page)) ''node-1'' = 1"
    by (simp add: example_page_def example_tree_def ids_Node)
  from addChildNode_appends_New_Idea [OF one, of 7 1] one show ?thesis by simp
qed

text \<open>
  Claim C3. On a tree with distinct identifiers and with a container present,
  \<^verbatim>\<open>layoutMindMap\<close> places the root at half the container's width and height, and the
  tree it returns satisfies the placement law \<open>radial\<close> from the angle 0 and the distance
  200: the \<open>k\<close>-th of a node's \<open>n\<close> children has the angle of its parent plus
  \<open>k * ((pi * 2) / n)\<close>, lies at the parent's position plus
  \<open>(cos angle * distance, sin angle * distance)\<close>, and has its own children placed
  with the distance times 0.8. This holds for every interpretation of the number
  operations, the platform's rounded ones included. The example of the specification is
  the law at \<open>n = 4\<close> and distance 200; the witness evaluates it in exact arithmetic on a
  root with four children in a container of 800 by 600: the children lie at the angles
  0, \<open>pi / 2\<close>, \<open>pi\<close>, \<open>3 * pi / 2\<close> at the distance 200 around (400, 300), and the
  grandchild lies at the distance 160 from its parent.
\<close>

theorem layout_radial:
  assumes "distinct (ids (rootNode s))"
  shows "node_x (rootNode (layoutMindMap A (Some cv) s)) =
           Some (js_div A (js_nat A (clientWidth cv)) (js_nat A 2)) \<and>
         node_y (rootNode (layoutMindMap A (Some cv) s)) =
           Some (js_div A (js_nat A (clientHeight cv)) (js_nat A 2)) \<and>
         radial A (rootNode (layoutMindMap A (Some cv) s)) (js_nat A 0) (js_nat A 200)"
  by (simp add: layoutMindMap_rootNode node_x_layoutChildren node_y_layoutChildren
      node_x_set_xy node_y_set_xy radial_layoutChildren)

theorem layout_radial_witness:
  "distinct (ids (rootNode star_page)) \<and>
   radial real_arith
     (rootNode (layoutMindMap real_arith (Some \<lparr>clientWidth = 800, clientHeight = 600\<rparr>) star_page))
     (js_nat real_arith 0) (js_nat real_arith 200) \<and>
   rootNode (layoutMindMap real_arith (Some \<lparr>clientWidth = 800, clientHeight = 600\<rparr>) star_page) =
     Node ''root'' ''Central Idea''
       [Node ''node-1'' ''East'' [] (Some 600) (Some 300) None,
        Node ''node-2'' ''South'' [Node ''node-5'' ''Leaf'' [] (Some 400) (Some 660) None]
          (Some 400) (Some 500) None,
        Node ''node-3'' ''West'' [] (Some 200) (Some 300) None,
        Node ''node-4'' ''North'' [] (Some 400) (Some 100) None]
       (Some 400) (Some 300) (Some ''#9b87f5'')"
proof -
  have d: "distinct (ids (rootNode star_page))"
    by (simp add: star_page_def star_tree_def ids_Node)
  from layout_radial [OF d, of real_arith "\<lparr>clientWidth = 800, clientHeight = 600\<rparr>"] d star_layout
  show ?thesis by blast
qed

text \<open>
  Claim C4. On a tree with distinct identifiers, where no node object is shared and the
  model is the source, and with a container present, the positions that
  \<^verbatim>\<open>layoutMindMap\<close> assigns depend only on the tree with its stored positions erased
  and on the container's size, for any interpretation of the number operations; and
  running the layout a second time changes nothing, whether or not a container is
  present. (A tree with the same erased form has the same identifiers, and so has the
  tree after a layout.)
\<close>

theorem layoutMindMap_idempotent:
  assumes "distinct (ids (rootNode s))"
  shows "(erase_pos (rootNode s) = erase_pos (rootNode s') \<longrightarrow>
            rootNode (layoutMindMap A (Some cv) s) = rootNode (layoutMindMap A (Some cv) s')) \<and>
         layoutMindMap A canvasRef (layoutMindMap A canvasRef s) = layoutMindMap A canvasRef s"
proof
  show "erase_pos (rootNode s) = erase_pos (rootNode s') \<longrightarrow>
      rootNode (layoutMindMap A (Some cv) s) = rootNode (layoutMindMap A (Some cv) s')"
    unfolding layoutMindMap_rootNode
    by (auto intro!: layoutChildren_stored_positions
        simp: erase_pos_set_xy node_x_set_xy node_y_set_xy)
next
  show "layoutMindMap A canvasRef (layoutMindMap A canvasRef s) = layoutMindMap A canvasRef s"
  proof (cases canvasRef)
    case None
    then show ?thesis by (simp add: layoutMindMap_def)
  next
    case (Some cv)
    let ?s1 = "layoutMindMap A (Some cv) s"
    have "erase_pos (rootNode ?s1) = erase_pos (rootNode s)"
      unfolding layoutMindMap_rootNode
      by (simp add: erase_pos_layoutChildren erase_pos_set_xy)
    then have "rootNode (layoutMindMap A (Some cv) ?s1) = rootNode ?s1"
      unfolding layoutMindMap_rootNode [of A cv ?s1] layoutMindMap_rootNode [of A cv s]
      by (intro layoutChildren_stored_positions)
         (simp_all add: erase_pos_set_xy node_x_set_xy node_y_set_xy)
    moreover have "layoutMindMap A (Some cv) t = t\<lparr>rootNode := rootNode (layoutMindMap A (Some cv) t)\<rparr>"
      for t :: "'a page"
      by (simp add: layoutMindMap_def Let_def)
    ultimately show ?thesis unfolding Some
      by (metis (no_types) page.surjective page.update_convs(1))
  qed
qed

theorem layoutMindMap_idempotent_witness:
  "distinct (ids (rootNode example_page)) \<and>
   erase_pos (rootNode example_page) = erase_pos (rootNode (example_page\<lparr>rootNode := set_xy 5 9 example_tree\<rparr>)) \<and>
   rootNode (layoutMindMap real_arith (Some \<lparr>clientWidth = 800, clientHeight = 600\<rparr>) example_page) =
   rootNode (layoutMindMap real_arith (Some \<lparr>clientWidth = 800, clientHeight = 600\<rparr>)
               (example_page\<lparr>rootNode := set_xy 5 9 example_tree\<rparr>))"
proof -
  have d: "distinct (ids (rootNode example_page))"
    by (simp add: example_page_def example_tree_def ids_Node)
  have same: "erase_pos (rootNode example_page) =
      erase_pos (rootNode (example_page\<lparr>rootNode := set_xy 5 9 example_tree\<rparr>))"
    by (simp add: example_page_def erase_pos_set_xy)
  from layoutMindMap_idempotent
         [OF d, of "example_page\<lparr>rootNode := set_xy 5 9 example_tree\<rparr>" real_arith
             "\<lparr>clientWidth = 800, clientHeight = 600\<rparr>"] d same
  show ?thesis by blast
qed

text \<open>
  Claim C5, as stated, has the initialiser fall back to the default model on a stored
  text that is not JSON. The text \<^verbatim>\<open>{\<close> is not JSON, and neither the mind-map nor the
  task initialiser returns its default on it.
\<close>

theorem init_from_storage_counterexample:
  "\<not> json_valid ''{'' \<and>
   rootNode_init (\<lambda>text. default_root real_arith) real_arith [''mindMap'' \<mapsto> ''{''] \<noteq>
     Inr (default_root real_arith) \<and>
   tasks_init (\<lambda>text. []) [''tasks'' \<mapsto> ''{''] \<noteq> Inr []"
  by (simp add: rootNode_init_def tasks_init_def JSON_parse_def json_valid_def
      json_accepting_def is_ws_def begin_value_def)

text \<open>
  Claim C5, amended. For a stored text that is not JSON, the initialiser of the mind map
  and the initialiser of the task list raise the parser's \<^verbatim>\<open>SyntaxError\<close> when the
  text is not empty; they return the default model (the single-root tree, the empty
  task list) when it is the empty string, as they do when the key is not stored.
\<close>

theorem init_from_storage_malformed:
  assumes "\<not> json_valid text"
  shows "rootNode_init decode A (localStorage(''mindMap'' \<mapsto> text)) =
           (if text = [] then Inr (default_root A) else Inl SyntaxError) \<and>
         tasks_init decode' (localStorage(''tasks'' \<mapsto> text)) =
           (if text = [] then Inr [] else Inl SyntaxError) \<and>
         rootNode_init decode A (localStorage(''mindMap'' := None)) = Inr (default_root A) \<and>
         tasks_init decode' (localStorage(''tasks'' := None)) = Inr []"
  using assms by (simp add: rootNode_init_def tasks_init_def JSON_parse_def)

theorem init_from_storage_malformed_witness:
  "\<not> json_valid ''not json'' \<and>
   rootNode_init (\<lambda>text. default_root real_arith) real_arith [''mindMap'' \<mapsto> ''not json''] =
     Inl SyntaxError \<and>
   tasks_init (\<lambda>text. []) [''tasks'' \<mapsto> ''not json''] = Inl SyntaxError"
proof -
  have bad: "\<not> json_valid ''not json''"
    by (simp add: json_valid_def json_accepting_def is_ws_def begin_value_def is_digit_def)
  from init_from_storage_malformed
         [OF bad, of "\<lambda>text. default_root real_arith" real_arith Map.empty "\<lambda>text. []"] bad
  show ?thesis by simp
qed

text \<open>
  Claim C6. \<^verbatim>\<open>updateNodeContent\<close> changes contents only: with every content erased the
  tree is what it was (identifiers, colours, positions, children and their order); the
  nodes whose identifier differs from the edited one keep their content; the node
  located by the edited identifier has the new content and its other fields as before;
  and when no node carries the identifier the tree is returned as it was.
\<close>

theorem updateNodeContent_only_content:
  "erase_content (updateNodeContent e v t) = erase_content t \<and>
   map node_content (filter (\<lambda>n. node_id n \<noteq> e) (nodes (updateNodeContent e v t))) =
     map node_content (filter (\<lambda>n. node_id n \<noteq> e) (nodes t)) \<and>
   find_node e (updateNodeContent e v t) = map_option (set_content v) (find_node e t) \<and>
   (e \<notin> set (ids t) \<longrightarrow> updateNodeContent e v t = t)"
  by (simp add: erase_content_updateNodeContent other_contents_updateNodeContent
      find_node_updateNodeContent updateNodeContent_absent)

theorem updateNodeContent_only_content_witness:
  "''node-9'' \<notin> set (ids example_tree) \<and>
   updateNodeContent ''node-9'' ''Crew'' example_tree = example_tree"
proof -
  have absent: "''node-9'' \<notin> set (ids example_tree)"
    by (simp add: example_tree_def ids_Node)
  from updateNodeContent_only_content [of "''node-9''" "''Crew''" example_tree] absent
  show ?thesis by simp
qed

text \<open>
  Claim C7. Let the text of every number that has one be a JSON number literal. Then
  \<^verbatim>\<open>JSON.parse\<close> accepts the exported text \<^verbatim>\<open>JSON.stringify(rootNode, null, 2)\<close> and
  returns the JSON value of the tree; that value read as a node is the tree with each
  position replaced by the number read from its text; the state initialiser returns
  this same tree from the text that the page stored under \<^verbatim>\<open>"mindMap"\<close>, for any
  \<open>decode\<close> that reads a node-shaped value as that node; and the tree read back has
  the identifiers, contents, colours, children and child order of the tree written
  (positions are not compared).
\<close>

theorem stringify_parse_round_trip:
  assumes num: "\<And>r t. num_text r = Some t \<Longrightarrow> is_json_number t"
    and dec: "\<And>s v t. json_value s = Some v \<Longrightarrow> json_node read_num v = Some t \<Longrightarrow> decode s = t"
  shows "JSON_parse json_value (exportMindMap pos_first num_text s) =
           Inr (Some (node_json pos_first num_text (rootNode s))) \<and>
         json_node read_num (node_json pos_first num_text (rootNode s)) =
           Some (reread read_num num_text (rootNode s)) \<and>
         rootNode_init decode A (saveMindMap pos_first num_text s localStorage) =
           Inr (reread read_num num_text (rootNode s)) \<and>
         erase_pos (reread read_num num_text (rootNode s)) = erase_pos (rootNode s)"
proof -
  let ?v = "node_json pos_first num_text (rootNode s)"
  have ok: "json_ok ?v" by (rule json_ok_node_json) (rule num)
  note rt = parse_stringify [OF ok]
  have nonempty: "JSON_stringify 0 ?v \<noteq> []"
    using rt(2) [of 0] by (auto simp: json_value_def empty_data_def settle_def num_done_def)
  have "decode (JSON_stringify 0 ?v) = reread read_num num_text (rootNode s)"
    by (rule dec [OF rt(2) json_node_node_json])
  with rt(1) [of 0] nonempty
  have "rootNode_init decode A (saveMindMap pos_first num_text s localStorage) =
        Inr (reread read_num num_text (rootNode s))"
    by (simp add: rootNode_init_def saveMindMap_def JSON_parse_def)
  with rt show ?thesis
    by (simp add: JSON_parse_def exportMindMap_def json_node_node_json erase_pos_reread)
qed

theorem stringify_parse_round_trip_witness:
  "rootNode_init example_decode real_arith (saveMindMap root_first whole_text example_page Map.empty) =
     Inr (reread (\<lambda>t. 0) whole_text example_tree) \<and>
   erase_pos (reread (\<lambda>t. 0) whole_text example_tree) = erase_pos example_tree \<and>
   JSON_parse json_value (exportMindMap root_first whole_text example_page) =
     Inr (Some (node_json root_first whole_text example_tree))"
proof -
  have root: "rootNode example_page = example_tree" by (simp add: example_page_def)
  have "JSON_parse json_value (exportMindMap root_first whole_text example_page) =
           Inr (Some (node_json root_first whole_text (rootNode example_page))) \<and>
         json_node (\<lambda>t. 0) (node_json root_first whole_text (rootNode example_page)) =
           Some (reread (\<lambda>t. 0) whole_text (rootNode example_page)) \<and>
         rootNode_init example_decode real_arith
            (saveMindMap root_first whole_text example_page Map.empty) =
           Inr (reread (\<lambda>t. 0) whole_text (rootNode example_page)) \<and>
         erase_pos (reread (\<lambda>t. 0) whole_text (rootNode example_page)) =
           erase_pos (rootNode example_page)"
  proof (rule stringify_parse_round_trip)
    fix r t assume "whole_text r = Some t"
    then show "is_json_number t" by (rule is_json_number_whole_text)
  next
    fix s v t assume "json_value s = Some v" "json_node (\<lambda>t. 0) v = Some (t :: real MindMapNode)"
    then show "example_decode s = t" by (simp add: example_decode_def)
  qed
  then show ?thesis unfolding root by blast
qed

text \<open>
  Claim C8. When no node of the tree carries \<open>parentId\<close>, \<^verbatim>\<open>addChildToNode\<close> returns
  the tree as it was, and so the tree of the page after \<^verbatim>\<open>addChildNode\<close> is the tree
  before it.
\<close>

theorem addChildToNode_absent_parent:
  assumes "parentId \<notin> set (ids (rootNode s))"
  shows "addChildToNode parentId n (rootNode s) = rootNode s \<and>
         rootNode (addChildNode now pick parentId s) = rootNode s"
  using assms by (simp add: addChildNode_def addChildToNode_absent)

theorem addChildToNode_absent_parent_witness:
  "''node-9'' \<notin> set (ids (rootNode example_page)) \<and>
   rootNode (addChildNode 7 1 ''node-9'' example_page) = rootNode example_page"
proof -
  have absent: "''node-9'' \<notin> set (ids (rootNode example_page))"
    by (simp add: example_page_def example_tree_def ids_Node)
  from addChildToNode_absent_parent [OF absent, of _ 7 1] absent show ?thesis by simp
qed

text \<open>
  Claim C9. The initial and reset tree has the root \<^verbatim>\<open>"root"\<close> and no other node with
  that identifier, and every sequence of events (adding a child, deleting, editing,
  typing, saving an edit, laying out, resetting) keeps it so: the root is never removed
  and never renamed.
\<close>

theorem root_preserved:
  "root_ok (default_root A) \<and>
   (root_ok (rootNode s) \<longrightarrow> root_ok (rootNode (fold (handle A) es s)))"
proof
  show "root_ok (default_root A)" by (rule root_ok_default_root)
  show "root_ok (rootNode s) \<longrightarrow> root_ok (rootNode (fold (handle A) es s))"
    by (induction es arbitrary: s) (simp_all add: root_ok_handle)
qed

theorem root_preserved_witness:
  "root_ok (rootNode example_page) \<and>
   root_ok (rootNode (fold (handle real_arith)
      [AddChild 7 1 ''node-2'', Typed ''Crew'', SaveEdit, Delete ''node-1'', Delete ''root'',
       Layout (Some \<lparr>clientWidth = 800, clientHeight = 600\<rparr>), Reset]
      example_page))"
proof -
  have ok: "root_ok (rootNode example_page)"
    by (simp add: example_page_def example_tree_def root_ok_def ids_Node)
  from root_preserved [of real_arith example_page] ok show ?thesis by blast
qed

text \<open>
  Claim C10. The layout writes positions only: with the positions erased, the tree
  after \<^verbatim>\<open>layoutChildren\<close>, and the tree of the page after \<^verbatim>\<open>layoutMindMap\<close>, is the
  tree before (identifiers, contents, colours, children and their order), and
  \<^verbatim>\<open>layoutMindMap\<close> changes no other field of the page.
\<close>

theorem layout_writes_positions_only:
  "erase_pos (layoutChildren A node angle distance) = erase_pos node \<and>
   erase_pos (rootNode (layoutMindMap A canvasRef s)) = erase_pos (rootNode s) \<and>
   layoutMindMap A canvasRef s = s\<lparr>rootNode := rootNode (layoutMindMap A canvasRef s)\<rparr>"
  by (simp add: erase_pos_layoutChildren layoutMindMap_def Let_def erase_pos_set_xy
      split: option.splits)

end
